theory Spec2Isabelle
  imports Main "HOL-Library.Log_Nat"
begin

section \<open>Go values the pipeline computes with\<close>

text \<open>
  A Go \<open>error\<close> is an interface value; \<open>nil\<close> is \<open>None\<close>, and \<open>OpError op e\<close> is the
  package's \<open>Error\<close> with its \<open>Op\<close> and the error it wraps. A panic, and a result the Go
  specification leaves to the implementation (a float64 converted to an int64 it does
  not fit), are faults: a call that faults returns no value.
\<close>

datatype error = errorString string | OpError string error

datatype fault = Panic | ImplementationDependent

type_synonym bytes = string

text \<open>\<open>time.Duration\<close> is an int64 counting nanoseconds; int64 addition wraps around.\<close>

definition wrap64 :: "int \<Rightarrow> int" where
  "wrap64 x = (x + 2 ^ 63) mod 2 ^ 64 - 2 ^ 63"

text \<open>Go's integer division truncates towards zero.\<close>

definition quo :: "int \<Rightarrow> int \<Rightarrow> int" where
  "quo a b = sgn a * sgn b * (\<bar>a\<bar> div \<bar>b\<bar>)"

subsection \<open>float64\<close>

text \<open>
  \<open>exponentialBackoff.WaitTime\<close> computes in float64. A finite float64 is
  \<open>Finite m e\<close>, the number \<open>m * 2 ^ e\<close>; a value that is stored has at most 53 bits
  in \<open>m\<close> and \<open>- 1074 \<le> e\<close>, and a magnitude below \<open>2 ^ 1024\<close>. \<open>f64_round\<close> rounds an
  exact result to the nearest such number, ties to the even mantissa, as IEEE 754
  arithmetic and Go's integer conversion do. The sign of zero is not modelled: no
  operation here observes it.
\<close>

datatype float64 = Finite int int | PInf | NInf | NaN

definition nearest_even :: "int \<Rightarrow> nat \<Rightarrow> int" where
  "nearest_even a s =
     (let q = a div 2 ^ s; r = a mod 2 ^ s; h = 2 ^ (s - 1)
      in if r < h then q else if h < r then q + 1 else if even q then q else q + 1)"

definition overflow_check :: "int \<Rightarrow> int \<Rightarrow> float64" where
  "overflow_check m e =
     (if m \<noteq> 0 \<and> 1024 < bitlen \<bar>m\<bar> + e then (if 0 < m then PInf else NInf)
      else Finite m e)"

definition f64_round :: "int \<Rightarrow> int \<Rightarrow> float64" where
  "f64_round m e =
     (let s = max (bitlen \<bar>m\<bar> - 53) (- 1074 - e)
      in if s \<le> 0 then overflow_check m e
         else let q = nearest_even \<bar>m\<bar> (nat s)
              in if 53 < bitlen q then overflow_check (sgn m * (q div 2)) (e + s + 1)
                 else overflow_check (sgn m * q) (e + s))"

text \<open>The conversion \<open>float64(x)\<close> of an integer.\<close>

definition float64_of_int :: "int \<Rightarrow> float64" where
  "float64_of_int x = f64_round x 0"

text \<open>
  \<open>math.Exp2(float64(n))\<close> for an integer \<open>n\<close>: the exact power of two, \<open>+Inf\<close> above
  the largest exponent and \<open>0\<close> below the smallest.
\<close>

definition Exp2 :: "int \<Rightarrow> float64" where
  "Exp2 x = (if 1023 < x then PInf else if x < - 1074 then Finite 0 0 else Finite 1 x)"

fun f64_mul :: "float64 \<Rightarrow> float64 \<Rightarrow> float64" where
  "f64_mul (Finite m1 e1) (Finite m2 e2) = f64_round (m1 * m2) (e1 + e2)"
| "f64_mul NaN _ = NaN"
| "f64_mul _ NaN = NaN"
| "f64_mul (Finite m e) PInf = (if 0 < m then PInf else if m < 0 then NInf else NaN)"
| "f64_mul (Finite m e) NInf = (if 0 < m then NInf else if m < 0 then PInf else NaN)"
| "f64_mul PInf (Finite m e) = (if 0 < m then PInf else if m < 0 then NInf else NaN)"
| "f64_mul NInf (Finite m e) = (if 0 < m then NInf else if m < 0 then PInf else NaN)"
| "f64_mul PInf PInf = PInf"
| "f64_mul NInf NInf = PInf"
| "f64_mul PInf NInf = NInf"
| "f64_mul NInf PInf = NInf"

fun f64_less :: "float64 \<Rightarrow> float64 \<Rightarrow> bool" where
  "f64_less (Finite m1 e1) (Finite m2 e2) =
     (m1 * 2 ^ nat (e1 - min e1 e2) < m2 * 2 ^ nat (e2 - min e1 e2))"
| "f64_less NaN _ = False"
| "f64_less _ NaN = False"
| "f64_less NInf NInf = False"
| "f64_less NInf _ = True"
| "f64_less _ NInf = False"
| "f64_less PInf _ = False"
| "f64_less _ PInf = True"

text \<open>\<open>math.Min\<close>: \<open>-Inf\<close> wins, then NaN, then the smaller operand.\<close>

definition math_Min :: "float64 \<Rightarrow> float64 \<Rightarrow> float64" where
  "math_Min x y =
     (if x = NInf \<or> y = NInf then NInf
      else if x = NaN \<or> y = NaN then NaN
      else if f64_less x y then x else y)"

text \<open>The quotient \<open>x / 2\<close>.\<close>

fun f64_half :: "float64 \<Rightarrow> float64" where
  "f64_half (Finite m e) = f64_round m (e - 1)"
| "f64_half x = x"

text \<open>
  The conversions \<open>int64(x)\<close> and \<open>time.Duration(x)\<close> of a float64 discard the
  fraction. Where the truncated value is no int64, and for an infinity or NaN, the
  result is implementation-dependent.
\<close>

fun int64_of_float64 :: "float64 \<Rightarrow> fault + int" where
  "int64_of_float64 (Finite m e) =
     (let v = (if 0 \<le> e then m * 2 ^ nat e else quo m (2 ^ nat (- e)))
      in if - (2 ^ 63) \<le> v \<and> v < 2 ^ 63 then Inr v else Inl ImplementationDependent)"
| "int64_of_float64 _ = Inl ImplementationDependent"

text \<open>
  \<open>rand.Int63n(n)\<close> panics for \<open>n \<le> 0\<close> and otherwise returns a number of \<open>[0, n)\<close>
  chosen by the generator; \<open>src\<close> stands for the generator's choice, and every number
  of \<open>[0, n)\<close> is the result for some \<open>src\<close>.
\<close>

definition Int63n :: "int \<Rightarrow> int \<Rightarrow> fault + int" where
  "Int63n src n = (if n \<le> 0 then Inl Panic else Inr (src mod n))"

section \<open>Responses\<close>

datatype response_body = PlainBody bytes | GzipReader bytes | NilGzipReader

record http_Response =
  StatusCode :: int
  Header :: "string \<Rightarrow> string list"
  RespContentLength :: int
  RespBody :: response_body

text \<open>\<open>Response\<close> embeds \<open>*http.Response\<close> (here \<open>Raw\<close>) beside \<open>content\<close> and \<open>err\<close>.\<close>

record Response =
  Raw :: "http_Response option"
  content :: "bytes option"
  err :: "error option"

definition new_Response :: Response where
  "new_Response = \<lparr>Raw = None, content = None, err = None\<rparr>"

section \<open>Backoff strategies (src/backoff.go)\<close>

text \<open>
  \<open>Backoff\<close> is an interface; the package implements it twice, and a caller may
  implement it too (\<open>customBackoff\<close>).
\<close>

datatype Backoff =
    constantBackoff int bool
  | exponentialBackoff int int bool
  | customBackoff "int \<Rightarrow> Response \<Rightarrow> fault + int"

definition NewConstantBackoff :: "int \<Rightarrow> bool \<Rightarrow> Backoff" where
  "NewConstantBackoff initialDuration jitter = constantBackoff initialDuration jitter"

definition NewExponentialBackoff :: "int \<Rightarrow> int \<Rightarrow> bool \<Rightarrow> Backoff" where
  "NewExponentialBackoff initialDuration maxDuration jitter =
     exponentialBackoff initialDuration maxDuration jitter"

text \<open>
  \<open>WaitTime b attemptNum resp src\<close>; \<open>src\<close> is the choice of the random generator that
  the jittered variants consult. The two methods of the source:
  \<^verbatim>\<open>
  func (cb *constantBackoff) WaitTime(_ int, _ *Response) time.Duration {
      if !cb.jitter {
          return cb.initialDuration
      }
      return cb.initialDuration/2 + time.Duration(rand.Int63n(int64(cb.initialDuration)))
  }

  func (eb *exponentialBackoff) WaitTime(attemptNum int, _ *Response) time.Duration {
      temp := math.Min(float64(eb.maxDuration),
          float64(eb.initialDuration)*math.Exp2(float64(attemptNum)))
      if !eb.jitter {
          return time.Duration(temp)
      }
      n := int64(temp / 2)
      return time.Duration(n + rand.Int63n(n))
  }
  \<close>
\<close>

fun WaitTime :: "Backoff \<Rightarrow> int \<Rightarrow> Response \<Rightarrow> int \<Rightarrow> fault + int" where
  "WaitTime (constantBackoff initialDuration jitter) attemptNum resp src =
     (if \<not> jitter then Inr initialDuration
      else case Int63n src initialDuration of
             Inl f \<Rightarrow> Inl f
           | Inr r \<Rightarrow> Inr (wrap64 (quo initialDuration 2 + r)))"
| "WaitTime (exponentialBackoff initialDuration maxDuration jitter) attemptNum resp src =
     (let temp = math_Min (float64_of_int maxDuration)
                   (f64_mul (float64_of_int initialDuration) (Exp2 attemptNum))
      in if \<not> jitter then int64_of_float64 temp
         else case int64_of_float64 (f64_half temp) of
                Inl f \<Rightarrow> Inl f
              | Inr n \<Rightarrow> (case Int63n src n of
                           Inl f \<Rightarrow> Inl f
                         | Inr r \<Rightarrow> Inr (wrap64 (n + r))))"
| "WaitTime (customBackoff f) attemptNum resp src = f attemptNum resp"

section \<open>Retry policy (\<open>Retrier\<close>, in src/dump.go)\<close>

record Retrier =
  maxAttempts :: int
  backoff :: "Backoff option"
  triggers :: "(Response \<Rightarrow> bool) list"

definition noRetry :: Retrier where
  "noRetry = \<lparr>maxAttempts = 1, backoff = None, triggers = []\<rparr>"

definition NewRetrier :: "int \<Rightarrow> Backoff option \<Rightarrow> (Response \<Rightarrow> bool) list \<Rightarrow> Retrier" where
  "NewRetrier n b ts = \<lparr>maxAttempts = n, backoff = b, triggers = ts\<rparr>"

text \<open>
  \<open>on\<close> and its \<open>for ... range r.triggers\<close> loop:
  \<^verbatim>\<open>
  func (r *Retrier) on(resp *Response) bool {
      if len(r.triggers) == 0 {
          return false
      }
      for _, trigger := range r.triggers {
          if trigger(resp) {
              return true
          }
      }
      return false
  }
  \<close>
\<close>

fun range_triggers :: "(Response \<Rightarrow> bool) list \<Rightarrow> Response \<Rightarrow> bool" where
  "range_triggers [] resp = False"
| "range_triggers (trigger # rest) resp =
     (if trigger resp then True else range_triggers rest resp)"

definition on :: "Retrier \<Rightarrow> Response \<Rightarrow> bool" where
  "on r resp = (if length (triggers r) = 0 then False else range_triggers (triggers r) resp)"

section \<open>Requests and their bodies (src/request.go, src/util.go, src/dump.go)\<close>

text \<open>
  A request body is an \<open>io.ReadCloser\<close>: \<open>Reader bs e\<close> delivers the bytes \<open>bs\<close> and then
  ends, with end of file (\<open>None\<close>) or with a read error. \<open>NoBody\<close> is \<open>http.NoBody\<close>.
\<close>

datatype body = NoBody | Reader bytes "error option"

text \<open>The argument of \<open>SetBody\<close> is an \<open>io.Reader\<close>, told apart by its dynamic type.\<close>

datatype reader =
    BytesBuffer bytes
  | BytesReader bytes
  | StringsReader bytes
  | OtherReader body

text \<open>
  The request's context, as the execution loop observes it: \<open>Err_after i\<close> is
  \<open>ctx.Err()\<close> read after attempt \<open>i\<close>, and \<open>Done_in_backoff i\<close> is \<open>Some e\<close> when the
  \<open>select\<close> of the backoff after attempt \<open>i\<close> takes \<open>ctx.Done()\<close>, \<open>e\<close> being \<open>ctx.Err()\<close>
  then, and \<open>None\<close> when it takes the timer.
\<close>

record Context =
  Err_after :: "int \<Rightarrow> error option"
  Done_in_backoff :: "int \<Rightarrow> error option"

record Request =
  Method :: string
  URL :: string
  Body :: "body option"
  GetBody :: "(body option \<times> error option) option"
  ContentLength :: int
  ctx :: Context
  retrier :: "Retrier option"

text \<open>\<open>bytes.Buffer.ReadFrom\<close>: everything read, and the error that ended the reading.\<close>

fun ReadFrom :: "body \<Rightarrow> bytes \<times> error option" where
  "ReadFrom NoBody = ([], None)"
| "ReadFrom (Reader bs e) = (bs, e)"

definition drainBody :: "body \<Rightarrow> bytes \<times> error option" where
  "drainBody b = ReadFrom b"

fun toReadCloser :: "reader option \<Rightarrow> body option" where
  "toReadCloser None = None"
| "toReadCloser (Some (BytesBuffer bs)) = Some (Reader bs None)"
| "toReadCloser (Some (BytesReader bs)) = Some (Reader bs None)"
| "toReadCloser (Some (StringsReader bs)) = Some (Reader bs None)"
| "toReadCloser (Some (OtherReader b)) = Some b"

definition snapshot :: "Request \<Rightarrow> bytes \<Rightarrow> Request" where
  "snapshot req bs =
     req\<lparr>ContentLength := int (length bs), GetBody := Some (Some (Reader bs None), None)\<rparr>"

definition SetBody :: "Request \<Rightarrow> reader option \<Rightarrow> Request" where
  "SetBody req b =
     (let req1 = req\<lparr>Body := toReadCloser b\<rparr>
      in case b of
           None \<Rightarrow> req1
         | Some v \<Rightarrow>
             (let req2 = (case v of
                            BytesBuffer bs \<Rightarrow> snapshot req1 bs
                          | BytesReader bs \<Rightarrow> snapshot req1 bs
                          | StringsReader bs \<Rightarrow> snapshot req1 bs
                          | OtherReader _ \<Rightarrow> req1)
              in if GetBody req2 \<noteq> None \<and> ContentLength req2 = 0
                 then req2\<lparr>Body := Some NoBody, GetBody := Some (Some NoBody, None)\<rparr>
                 else req2))"

definition SetRetry :: "Request \<Rightarrow> Retrier option \<Rightarrow> Request" where
  "SetRetry req r = req\<lparr>retrier := r\<rparr>"

section \<open>The client (src/unnamed/part_001)\<close>

text \<open>
  \<open>http.Client.Do\<close> returns a response and no error, or an error beside a response
  that may be nil. \<open>httpClient c i req\<close> is its result at attempt \<open>i\<close>.
\<close>

datatype roundtrip = Success http_Response | Failure "http_Response option" error

record Limiter =
  Allow :: "Request \<Rightarrow> bool"
  Wait :: "Context \<Rightarrow> error option"

record Client =
  httpClient :: "int \<Rightarrow> Request \<Rightarrow> roundtrip"
  limiter :: "Limiter option"
  beforeRequestHooks :: "(Request \<Rightarrow> Request \<times> error option) list"
  afterResponseHooks :: "(Response \<Rightarrow> Response \<times> error option) list"

text \<open>
  What the package reads from outside a call: the package variable \<open>GlobalClient\<close>,
  the random generator of \<open>math/rand\<close> (its choice at each backoff), whether
  \<open>gzip.NewReader\<close> accepts a body, and whether \<open>http.NewRequest\<close> accepts a method and
  a URL.
\<close>

record runtime =
  GlobalClient :: Client
  rand_Int63 :: "int \<Rightarrow> int"
  gzip_NewReader :: "bytes \<Rightarrow> error option"
  http_NewRequest :: "string \<Rightarrow> string \<Rightarrow> error option"

text \<open>
  What one execution leaves behind: the response that \<open>doWithRetry\<close> updates in
  place, and the requests handed to the transport so far, oldest first.
\<close>

record exec =
  response :: Response
  attempts :: "Request list"

datatype outcome = Returned (final: exec) | Panicked (final: exec)

fun onBeforeRequest_loop ::
  "(Request \<Rightarrow> Request \<times> error option) list \<Rightarrow> Request \<Rightarrow> Request \<times> error option" where
  "onBeforeRequest_loop [] req = (req, None)"
| "onBeforeRequest_loop (hook # rest) req =
     (case hook req of
        (req', Some e) \<Rightarrow> (req', Some e)
      | (req', None) \<Rightarrow> onBeforeRequest_loop rest req')"

definition onBeforeRequest :: "Client \<Rightarrow> Request \<Rightarrow> Request \<times> error option" where
  "onBeforeRequest c req = onBeforeRequest_loop (beforeRequestHooks c) req"

fun onAfterResponse_loop ::
  "(Response \<Rightarrow> Response \<times> error option) list \<Rightarrow> Response \<Rightarrow> Response" where
  "onAfterResponse_loop [] resp = resp"
| "onAfterResponse_loop (hook # rest) resp =
     (case hook resp of
        (resp', Some e) \<Rightarrow> resp'\<lparr>err := Some e\<rparr>
      | (resp', None) \<Rightarrow> onAfterResponse_loop rest resp')"

definition onAfterResponse :: "Client \<Rightarrow> Response \<Rightarrow> Response" where
  "onAfterResponse c resp =
     (if err resp \<noteq> None then resp else onAfterResponse_loop (afterResponseHooks c) resp)"

text \<open>\<open>strings.EqualFold\<close> against an ASCII word: equality up to the case of letters.\<close>

definition lower :: "char \<Rightarrow> char" where
  "lower ch =
     (let n = (of_char ch :: nat) in if 65 \<le> n \<and> n \<le> 90 then char_of (n + 32) else ch)"

definition EqualFold :: "string \<Rightarrow> string \<Rightarrow> bool" where
  "EqualFold s t = (map lower s = map lower t)"

definition Header_Get :: "http_Response \<Rightarrow> string \<Rightarrow> string" where
  "Header_Get r k = (case Header r k of [] \<Rightarrow> [] | v # _ \<Rightarrow> v)"

definition do :: "runtime \<Rightarrow> Client \<Rightarrow> int \<Rightarrow> Request \<Rightarrow> http_Response option \<times> error option" where
  "do g c i req =
     (case httpClient c i req of
        Failure resp e \<Rightarrow> (resp, Some e)
      | Success resp \<Rightarrow>
          if EqualFold (Header_Get resp ''Content-Encoding'') ''gzip'' \<and> RespContentLength resp \<noteq> 0
          then (case RespBody resp of
                  PlainBody bs \<Rightarrow>
                    (case gzip_NewReader g bs of
                       None \<Rightarrow> (Some (resp\<lparr>RespBody := GzipReader bs\<rparr>), None)
                     | Some e \<Rightarrow> (Some (resp\<lparr>RespBody := NilGzipReader\<rparr>), Some e))
                | _ \<Rightarrow> (Some resp, None))
          else (Some resp, None))"

text \<open>
  The statements of the loop body: \<open>resp.Response, resp.err = c.do(req.Request)\<close>, and
  \<open>if req.GetBody != nil { req.Body, _ = req.GetBody() }\<close>.
\<close>

definition attempt :: "runtime \<Rightarrow> Client \<Rightarrow> int \<Rightarrow> Request \<Rightarrow> Response \<Rightarrow> Response" where
  "attempt g c i req resp = resp\<lparr>Raw := fst (do g c i req), err := snd (do g c i req)\<rparr>"

definition regenerate :: "Request \<Rightarrow> Request" where
  "regenerate req = (case GetBody req of None \<Rightarrow> req | Some gb \<Rightarrow> req\<lparr>Body := fst gb\<rparr>)"

text \<open>
  The \<open>for\<close> loop of \<open>doWithRetry\<close>, entered at index \<open>i\<close> with the request \<open>req\<close>.
  A nil \<open>retrier\<close>, a nil \<open>backoff\<close> and a \<open>WaitTime\<close> that faults end the execution in
  a panic. The \<open>select\<close> evaluates \<open>WaitTime\<close> before it waits.
  \<^verbatim>\<open>
  for i := 0; i < req.retrier.maxAttempts; i++ {
      resp.Response, resp.err = c.do(req.Request)
      if ctx.Err() != nil || i >= req.retrier.maxAttempts-1 || !req.retrier.on(resp) {
          return
      }
      if req.GetBody != nil {
          req.Body, _ = req.GetBody()
      }
      select {
      case <-time.After(req.retrier.backoff.WaitTime(i, resp)):
      case <-ctx.Done():
          resp.err = ctx.Err()
          return
      }
  }
  \<close>
\<close>

function retry_loop :: "runtime \<Rightarrow> Client \<Rightarrow> int \<Rightarrow> Request \<Rightarrow> exec \<Rightarrow> outcome" where
  "retry_loop g c i req st =
     (case retrier req of
        None \<Rightarrow> Panicked st
      | Some r \<Rightarrow>
          if i < maxAttempts r then
            (let resp = attempt g c i req (response st);
                 st1 = \<lparr>response = resp, attempts = attempts st @ [req]\<rparr>
             in if Err_after (ctx req) i \<noteq> None \<or> maxAttempts r - 1 \<le> i \<or> \<not> on r resp
                then Returned st1
                else
                  (let req1 = regenerate req
                   in case backoff r of
                        None \<Rightarrow> Panicked st1
                      | Some b \<Rightarrow>
                          (case WaitTime b i resp (rand_Int63 g i) of
                             Inl f \<Rightarrow> Panicked st1
                           | Inr d \<Rightarrow>
                               (case Done_in_backoff (ctx req) i of
                                  Some e \<Rightarrow> Returned (st1\<lparr>response := resp\<lparr>err := Some e\<rparr>\<rparr>)
                                | None \<Rightarrow> retry_loop g c (i + 1) req1 st1))))
          else Returned st)"
  by pat_completeness auto
termination
  by (relation "measure (\<lambda>(g, c, i, req, st).
        case retrier req of None \<Rightarrow> 0 | Some r \<Rightarrow> nat (maxAttempts r - i))")
     (auto simp: regenerate_def split: option.splits)

text \<open>
  The body replay and the limiter that precede the loop: \<open>prepare\<close> returns the request
  to send, or the error of draining the body; \<open>admit\<close> returns the error of the
  limiter's \<open>Wait\<close>, if it is called and fails.
  \<^verbatim>\<open>
  if req.retrier == nil {
      req.retrier = noRetry
  } else if req.retrier.maxAttempts > 1 && req.Body != nil && req.GetBody == nil {
      var body *bytes.Buffer
      body, err = drainBody(req.Body)
      if err != nil {
          resp.err = err
          return
      }
      req.SetBody(body)
  }

  ctx := req.Request.Context()
  if c.limiter != nil && !c.limiter.Allow(req.Request) {
      if err = c.limiter.Wait(ctx); err != nil {
          resp.err = err
          return
      }
  }
  \<close>
\<close>

definition prepare :: "Request \<Rightarrow> error + Request" where
  "prepare req =
     (case retrier req of
        None \<Rightarrow> Inr (req\<lparr>retrier := Some noRetry\<rparr>)
      | Some r \<Rightarrow>
          if 1 < maxAttempts r \<and> Body req \<noteq> None \<and> GetBody req = None
          then (case drainBody (the (Body req)) of
                  (buf, Some e) \<Rightarrow> Inl e
                | (buf, None) \<Rightarrow> Inr (SetBody req (Some (BytesBuffer buf))))
          else Inr req)"

definition admit :: "Client \<Rightarrow> Request \<Rightarrow> error option" where
  "admit c req =
     (case limiter c of
        None \<Rightarrow> None
      | Some l \<Rightarrow> if \<not> Allow l req then Wait l (ctx req) else None)"

definition doWithRetry :: "runtime \<Rightarrow> Client \<Rightarrow> Request \<Rightarrow> Response \<Rightarrow> outcome" where
  "doWithRetry g c req resp =
     (case prepare req of
        Inl e \<Rightarrow> Returned \<lparr>response = resp\<lparr>err := Some e\<rparr>, attempts = []\<rparr>
      | Inr req1 \<Rightarrow>
          (case admit c req1 of
             Some e \<Rightarrow> Returned \<lparr>response = resp\<lparr>err := Some e\<rparr>, attempts = []\<rparr>
           | None \<Rightarrow> retry_loop g c 0 req1 \<lparr>response = resp, attempts = []\<rparr>))"

text \<open>
  \<open>Do\<close> runs the pre-request hooks, \<open>doWithRetry\<close> and the post-response hooks:
  \<^verbatim>\<open>
  func (c *Client) Do(req *Request) *Response {
      resp := new(Response)
      if err := c.onBeforeRequest(req); err != nil {
          resp.err = err
          return resp
      }
      c.doWithRetry(req, resp)
      c.onAfterResponse(resp)
      return resp
  }
  \<close>
\<close>

definition Do :: "runtime \<Rightarrow> Client \<Rightarrow> Request \<Rightarrow> outcome" where
  "Do g c req =
     (let resp = new_Response
      in case onBeforeRequest c req of
           (req', Some e) \<Rightarrow> Returned \<lparr>response = resp\<lparr>err := Some e\<rparr>, attempts = []\<rparr>
         | (req', None) \<Rightarrow>
             (case doWithRetry g c req' resp of
                Panicked st \<Rightarrow> Panicked st
              | Returned st \<Rightarrow> Returned (st\<lparr>response := onAfterResponse c (response st)\<rparr>)))"

text \<open>\<open>context.Background()\<close>, the context of a new request, is never done.\<close>

definition Background :: Context where
  "Background = \<lparr>Err_after = (\<lambda>i. None), Done_in_backoff = (\<lambda>i. None)\<rparr>"

text \<open>
  \<open>NewRequest\<close> builds the raw request with \<open>http.NewRequest(method, url, nil)\<close>, which
  reads an empty method as \<open>GET\<close> before it validates it, and then applies the options
  in order, stopping at the first that fails.
  \<^verbatim>\<open>
  func NewRequest(method string, url string, opts ...RequestOption) (*Request, error) {
      rawRequest, err := http.NewRequest(method, url, nil)
      if err != nil {
          return nil, &Error{
              Op:  "http.NewRequest",
              Err: err,
          }
      }

      req := &Request{
          Request: rawRequest,
      }
      for _, opt := range opts {
          if err = opt(req); err != nil {
              break
          }
      }
      return req, err
  }
  \<close>
\<close>

fun NewRequest_loop ::
  "(Request \<Rightarrow> Request \<times> error option) list \<Rightarrow> Request \<Rightarrow> Request \<times> error option" where
  "NewRequest_loop [] req = (req, None)"
| "NewRequest_loop (opt # rest) req =
     (case opt req of
        (req', Some e) \<Rightarrow> (req', Some e)
      | (req', None) \<Rightarrow> NewRequest_loop rest req')"

definition NewRequest ::
  "runtime \<Rightarrow> string \<Rightarrow> string \<Rightarrow> (Request \<Rightarrow> Request \<times> error option) list
     \<Rightarrow> Request option \<times> error option" where
  "NewRequest g method url opts =
     (let method = (if method = [] then ''GET'' else method)
      in case http_NewRequest g method url of
           Some e \<Rightarrow> (None, Some (OpError ''http.NewRequest'' e))
         | None \<Rightarrow>
             (case NewRequest_loop opts
                     \<lparr>Method = method, URL = url, Body = None, GetBody = None,
                      ContentLength = 0, ctx = Background, retrier = None\<rparr> of
                (req, e) \<Rightarrow> (Some req, e)))"

definition MethodGet :: string where "MethodGet = ''GET''"
definition MethodHead :: string where "MethodHead = ''HEAD''"
definition MethodPost :: string where "MethodPost = ''POST''"
definition MethodPut :: string where "MethodPut = ''PUT''"
definition MethodPatch :: string where "MethodPatch = ''PATCH''"
definition MethodDelete :: string where "MethodDelete = ''DELETE''"

text \<open>
  \<open>Send\<close> hands the request of \<open>NewRequest\<close> to \<open>Do\<close>; \<open>NewRequest\<close> returns no request
  only beside an error. Of the six verbs, five call \<open>c.Send\<close> and one does not:
  \<^verbatim>\<open>
  func (c *Client) Post(url string, opts ...RequestOption) *Response {
      return c.Send(MethodPost, url, opts...)
  }

  func (c *Client) Put(url string, opts ...RequestOption) *Response {
      return GlobalClient.Send(MethodPut, url, opts...)
  }
  \<close>
\<close>

definition Send ::
  "runtime \<Rightarrow> Client \<Rightarrow> string \<Rightarrow> string \<Rightarrow> (Request \<Rightarrow> Request \<times> error option) list
     \<Rightarrow> outcome" where
  "Send g c method url opts =
     (case NewRequest g method url opts of
        (_, Some e) \<Rightarrow> Returned \<lparr>response = new_Response\<lparr>err := Some e\<rparr>, attempts = []\<rparr>
      | (Some req, None) \<Rightarrow> Do g c req
      | (None, None) \<Rightarrow> Panicked \<lparr>response = new_Response, attempts = []\<rparr>)"

definition Get ::
  "runtime \<Rightarrow> Client \<Rightarrow> string \<Rightarrow> (Request \<Rightarrow> Request \<times> error option) list \<Rightarrow> outcome" where
  "Get g c url opts = Send g c MethodGet url opts"

definition Head ::
  "runtime \<Rightarrow> Client \<Rightarrow> string \<Rightarrow> (Request \<Rightarrow> Request \<times> error option) list \<Rightarrow> outcome" where
  "Head g c url opts = Send g c MethodHead url opts"

definition Post ::
  "runtime \<Rightarrow> Client \<Rightarrow> string \<Rightarrow> (Request \<Rightarrow> Request \<times> error option) list \<Rightarrow> outcome" where
  "Post g c url opts = Send g c MethodPost url opts"

definition Put ::
  "runtime \<Rightarrow> Client \<Rightarrow> string \<Rightarrow> (Request \<Rightarrow> Request \<times> error option) list \<Rightarrow> outcome" where
  "Put g c url opts = Send g (GlobalClient g) MethodPut url opts"

definition Patch ::
  "runtime \<Rightarrow> Client \<Rightarrow> string \<Rightarrow> (Request \<Rightarrow> Request \<times> error option) list \<Rightarrow> outcome" where
  "Patch g c url opts = Send g c MethodPatch url opts"

definition Delete ::
  "runtime \<Rightarrow> Client \<Rightarrow> string \<Rightarrow> (Request \<Rightarrow> Request \<times> error option) list \<Rightarrow> outcome" where
  "Delete g c url opts = Send g c MethodDelete url opts"

section \<open>Configurations of the examples\<close>

text \<open>
  A transport that answers every request with the same status, clients without limiter
  and hooks, a client whose post-response hook rejects every response, and retry
  policies around the package's backoffs. Durations are nanoseconds.
\<close>

definition status500 :: http_Response where
  "status500 =
     \<lparr>StatusCode = 500, Header = (\<lambda>k. []), RespContentLength = 0, RespBody = PlainBody []\<rparr>"

definition status200 :: http_Response where
  "status200 =
     \<lparr>StatusCode = 200, Header = (\<lambda>k. []), RespContentLength = 0, RespBody = PlainBody []\<rparr>"

definition always500 :: "int \<Rightarrow> Request \<Rightarrow> roundtrip" where
  "always500 i req = Success status500"

definition always200 :: "int \<Rightarrow> Request \<Rightarrow> roundtrip" where
  "always200 i req = Success status200"

definition client500 :: Client where
  "client500 =
     \<lparr>httpClient = always500, limiter = None, beforeRequestHooks = [], afterResponseHooks = []\<rparr>"

definition client200 :: Client where
  "client200 =
     \<lparr>httpClient = always200, limiter = None, beforeRequestHooks = [], afterResponseHooks = []\<rparr>"

definition reject :: "Response \<Rightarrow> Response \<times> error option" where
  "reject resp = (resp, Some (errorString ''rejected''))"

definition rejecting_client :: Client where
  "rejecting_client =
     \<lparr>httpClient = always500, limiter = None, beforeRequestHooks = [],
      afterResponseHooks = [reject]\<rparr>"

definition zero_draw :: "int \<Rightarrow> int" where
  "zero_draw i = 0"

definition gzip_accepts :: "bytes \<Rightarrow> error option" where
  "gzip_accepts bs = None"

definition url_accepted :: "string \<Rightarrow> string \<Rightarrow> error option" where
  "url_accepted method url = None"

definition runtime0 :: runtime where
  "runtime0 =
     \<lparr>GlobalClient = client200, rand_Int63 = zero_draw, gzip_NewReader = gzip_accepts,
      http_NewRequest = url_accepted\<rparr>"

definition always_retry :: "Response \<Rightarrow> bool" where
  "always_retry resp = True"

definition plain_request :: Request where
  "plain_request =
     \<lparr>Method = ''GET'', URL = ''http://example.com/'', Body = None, GetBody = None,
      ContentLength = 0, ctx = Background, retrier = None\<rparr>"

definition tiny_jitter_retrier :: Retrier where
  "tiny_jitter_retrier =
     NewRetrier 2 (Some (NewExponentialBackoff 1 1000000000 True)) [always_retry]"

definition constant_retrier :: Retrier where
  "constant_retrier = NewRetrier 3 (Some (NewConstantBackoff 100000000 False)) [always_retry]"

definition zero_retrier :: Retrier where
  "zero_retrier = NewRetrier 0 (Some (NewConstantBackoff 100000000 False)) [always_retry]"

definition canceled :: error where
  "canceled = errorString ''context canceled''"

definition no_error :: "int \<Rightarrow> error option" where
  "no_error i = None"

definition done_in_first_backoff :: "int \<Rightarrow> error option" where
  "done_in_first_backoff i = (if i = 0 then Some canceled else None)"

definition canceled_while_waiting :: Context where
  "canceled_while_waiting = \<lparr>Err_after = no_error, Done_in_backoff = done_in_first_backoff\<rparr>"

definition errRead :: error where
  "errRead = errorString ''read error''"

definition hello_request :: Request where
  "hello_request =
     plain_request\<lparr>Method := ''POST'', Body := Some (Reader ''hello world'' None),
       retrier := Some constant_retrier\<rparr>"

definition broken_request :: Request where
  "broken_request =
     plain_request\<lparr>Method := ''POST'', Body := Some (Reader ''hello'' (Some errRead)),
       retrier := Some constant_retrier\<rparr>"

definition waiting_request :: Request where
  "waiting_request =
     plain_request\<lparr>ctx := canceled_while_waiting, retrier := Some constant_retrier\<rparr>"

section \<open>Arithmetic of the float64 model\<close>

text \<open>
  Integers of magnitude below \<open>2 ^ 53\<close> convert exactly, and scaling one by a power of
  two only moves the exponent; these facts carry the statements about
  \<open>exponentialBackoff.WaitTime\<close>.
\<close>

lemma int64_range: "\<bar>x::int\<bar> < 2 ^ 53 \<Longrightarrow> - (2 ^ 63) \<le> x \<and> x < 2 ^ 63"
proof -
  have "(2::int) ^ 53 \<le> 2 ^ 63" by (rule power_increasing) simp_all
  then show "\<bar>x\<bar> < 2 ^ 53 \<Longrightarrow> - (2 ^ 63) \<le> x \<and> x < 2 ^ 63" by linarith
qed

lemma below_two_power_1024: "(x::int) < 2 ^ 53 \<Longrightarrow> x < 2 ^ 1024"
proof -
  have "(2::int) ^ 53 \<le> 2 ^ 1024" by (rule power_increasing) simp_all
  then show "x < 2 ^ 53 \<Longrightarrow> x < 2 ^ 1024" by linarith
qed

lemma pos_value: "0 < (m::int) \<Longrightarrow> 1 \<le> m * 2 ^ n"
proof -
  assume "0 < m"
  then have "1 * 1 \<le> m * 2 ^ n" by (intro mult_mono) simp_all
  then show ?thesis by simp
qed

lemma nonpos_value: "(m::int) \<le> 0 \<Longrightarrow> m * 2 ^ n \<le> 0"
  by (simp add: mult_le_0_iff)

lemma exponent_bound:
  assumes "(m::int) \<noteq> 0" "\<bar>m * 2 ^ nat i\<bar> \<le> 2 ^ 64"
  shows "i \<le> 64"
proof -
  have "(2::int) ^ nat i \<le> \<bar>m\<bar> * 2 ^ nat i" using assms(1) by simp
  also have "\<dots> \<le> 2 ^ 64" using assms(2) by (simp add: abs_mult)
  finally have "nat i \<le> 64" by (rule power_le_imp_le_exp [rotated]) simp
  then show ?thesis by linarith
qed

lemma div_bounds:
  assumes "0 < (b::int)" "c * b \<le> a" "a < d * b"
  shows "c \<le> a div b \<and> a div b < d"
proof -
  have m: "0 \<le> a mod b" "a mod b < b" using assms(1) by simp_all
  have e: "a = (a div b) * b + a mod b" by simp
  have "(a div b + 1) * b = (a div b) * b + b" by (simp add: algebra_simps)
  then have "c * b < (a div b + 1) * b"
    using assms(2) m(2) e by linarith
  then have "c < a div b + 1" using assms(1) by (simp add: mult_less_cancel_right)
  moreover have "(a div b) * b < d * b" using assms(3) m(1) e by linarith
  then have "a div b < d" using assms(1) by (simp add: mult_less_cancel_right)
  ultimately show ?thesis by simp
qed

lemma quo_two: "0 \<le> x \<Longrightarrow> quo x 2 = x div 2"
  by (cases "x = 0") (simp_all add: quo_def)

lemma quo_two_le: "x < 2 \<Longrightarrow> quo x 2 \<le> 0"
proof (cases "0 \<le> x")
  case True
  assume "x < 2"
  with True have "x div 2 = 0" by simp
  with True show ?thesis by (simp add: quo_two)
next
  case False
  then have "sgn x = - 1" by simp
  moreover have "0 \<le> \<bar>x\<bar> div 2" by simp
  ultimately show ?thesis by (simp add: quo_def)
qed

lemma quo_two_range: "\<bar>x\<bar> < 2 ^ 53 \<Longrightarrow> - (2 ^ 63) \<le> quo x 2 \<and> quo x 2 < 2 ^ 63"
proof -
  assume a: "\<bar>x\<bar> < 2 ^ 53"
  have "\<bar>quo x 2\<bar> \<le> \<bar>x\<bar>"
    by (cases "x = 0") (simp_all add: quo_def abs_mult abs_sgn_eq)
  with a have "\<bar>quo x 2\<bar> < 2 ^ 53" by linarith
  then show ?thesis by (rule int64_range)
qed

lemma bitlen_small: "\<bar>x\<bar> < 2 ^ 53 \<Longrightarrow> bitlen \<bar>x\<bar> \<le> 53"
  by (simp add: bitlen_le_iff_power)

lemma float64_of_int_exact: "\<bar>x\<bar> < 2 ^ 53 \<Longrightarrow> float64_of_int x = Finite x 0"
  using bitlen_small [of x]
  by (simp add: float64_of_int_def f64_round_def overflow_check_def)

lemma f64_round_exact:
  "bitlen \<bar>m\<bar> \<le> 53 \<Longrightarrow> - 1074 \<le> e \<Longrightarrow> f64_round m e = overflow_check m e"
  by (simp add: f64_round_def)

lemma overflow_check_small:
  "bitlen \<bar>m\<bar> \<le> 53 \<Longrightarrow> e \<le> 971 \<Longrightarrow> overflow_check m e = Finite m e"
  by (simp add: overflow_check_def)

lemma overflow_check_pos:
  assumes "0 < m" "0 \<le> e"
  shows "overflow_check m e = (if m * 2 ^ nat e < 2 ^ 1024 then Finite m e else PInf)"
proof -
  have "bitlen (m * 2 ^ nat e) = bitlen m + e"
    using assms by simp
  moreover have "bitlen (m * 2 ^ nat e) \<le> 1024 \<longleftrightarrow> m * 2 ^ nat e < 2 ^ 1024"
    by (simp add: bitlen_le_iff_power)
  ultimately show ?thesis
    using assms by (auto simp: overflow_check_def)
qed

lemma overflow_check_cases:
  "m \<noteq> 0 \<Longrightarrow>
   overflow_check m e = PInf \<and> 0 < m \<or> overflow_check m e = NInf \<and> m < 0 \<or>
   overflow_check m e = Finite m e \<and> bitlen \<bar>m\<bar> + e \<le> 1024"
  by (auto simp: overflow_check_def)

lemma mul_Exp2:
  "bitlen \<bar>m\<bar> \<le> 53 \<Longrightarrow> 0 \<le> e \<Longrightarrow> 0 \<le> i \<Longrightarrow>
   f64_mul (Finite m e) (Exp2 i) =
     (if 1023 < i then (if 0 < m then PInf else if m < 0 then NInf else NaN)
      else overflow_check m (e + i))"
  by (simp add: Exp2_def f64_round_exact)

lemma f64_less_value:
  assumes "0 \<le> e1" "0 \<le> e2"
  shows "f64_less (Finite m1 e1) (Finite m2 e2) = (m1 * 2 ^ nat e1 < m2 * 2 ^ nat e2)"
proof -
  define k where "k = min e1 e2"
  have k: "0 \<le> k" "k \<le> e1" "k \<le> e2" using assms by (simp_all add: k_def)
  have a: "nat e1 = nat (e1 - k) + nat k" and b: "nat e2 = nat (e2 - k) + nat k"
    using k by linarith+
  have "(m1 * 2 ^ nat e1 < m2 * 2 ^ nat e2) =
        (m1 * 2 ^ nat (e1 - k) * 2 ^ nat k < m2 * 2 ^ nat (e2 - k) * 2 ^ nat k)"
    unfolding a b power_add by (simp only: mult.assoc)
  also have "\<dots> = (m1 * 2 ^ nat (e1 - k) < m2 * 2 ^ nat (e2 - k))"
    by (simp add: mult_less_cancel_right)
  finally show ?thesis by (simp add: k_def)
qed

subsection \<open>The clamped value of durations that convert exactly\<close>

lemma exponential_temp:
  assumes "\<bar>init\<bar> < 2 ^ 53" "\<bar>maxd\<bar> < 2 ^ 53" "0 < init" "0 \<le> i"
  shows "math_Min (float64_of_int maxd) (f64_mul (float64_of_int init) (Exp2 i)) =
           (if maxd < init * 2 ^ nat i then Finite maxd 0 else Finite init i)"
proof -
  have b: "bitlen \<bar>init\<bar> \<le> 53" using assms(1) by (rule bitlen_small)
  have m: "maxd < 2 ^ 1024" using assms(2) below_two_power_1024 [of maxd] by linarith
  show ?thesis
  proof (cases "1023 < i")
    case True
    then have "(2::int) ^ 1024 \<le> 2 ^ nat i" by (intro power_increasing) auto
    moreover have "(2::int) ^ nat i \<le> init * 2 ^ nat i" using assms(3) by simp
    ultimately have "maxd < init * 2 ^ nat i" using m by linarith
    then show ?thesis
      using True assms b by (simp add: float64_of_int_exact mul_Exp2 math_Min_def)
  next
    case False
    show ?thesis
    proof (cases "init * 2 ^ nat i < 2 ^ 1024")
      case True
      then show ?thesis
        using False assms b
        by (simp add: float64_of_int_exact mul_Exp2 overflow_check_pos math_Min_def)
    next
      case False
      then have "maxd < init * 2 ^ nat i" using m by linarith
      then show ?thesis
        using False \<open>\<not> 1023 < i\<close> assms b
        by (simp add: float64_of_int_exact mul_Exp2 overflow_check_pos math_Min_def)
    qed
  qed
qed

lemma exponential_temp_zero:
  assumes "\<bar>maxd\<bar> < 2 ^ 53" "0 \<le> i" "i < 1024"
  shows "math_Min (float64_of_int maxd) (f64_mul (float64_of_int 0) (Exp2 i)) =
           (if maxd < 0 then Finite maxd 0 else Finite 0 i)"
  using assms
  by (simp add: float64_of_int_exact mul_Exp2 overflow_check_def math_Min_def)

lemma exponential_temp_neg:
  assumes "\<bar>init\<bar> < 2 ^ 53" "\<bar>maxd\<bar> < 2 ^ 53" "init < 0" "0 \<le> i"
    and "- (2 ^ 64) \<le> init * 2 ^ nat i"
  shows "math_Min (float64_of_int maxd) (f64_mul (float64_of_int init) (Exp2 i)) =
           (if maxd < init * 2 ^ nat i then Finite maxd 0 else Finite init i)"
proof -
  have "init * 2 ^ nat i \<le> 0" using assms(3) by (intro nonpos_value) simp
  then have "\<bar>init * 2 ^ nat i\<bar> \<le> 2 ^ 64" using assms(5) by linarith
  then have "i \<le> 64" using assms(3) by (intro exponent_bound [of init]) simp_all
  then show ?thesis
    using assms bitlen_small [of init]
    by (simp add: float64_of_int_exact mul_Exp2 overflow_check_small math_Min_def)
qed

lemma int64_small: "\<bar>x\<bar> < 2 ^ 53 \<Longrightarrow> int64_of_float64 (Finite x 0) = Inr x"
proof -
  assume "\<bar>x\<bar> < 2 ^ 53"
  then have "- (2 ^ 63) \<le> x \<and> x < 2 ^ 63" by (rule int64_range)
  then show ?thesis by simp
qed

lemma half_small:
  "\<bar>x\<bar> < 2 ^ 53 \<Longrightarrow> int64_of_float64 (f64_half (Finite x 0)) = Inr (quo x 2)"
  using bitlen_small [of x] quo_two_range [of x]
  by (simp add: f64_round_exact overflow_check_def)

lemma half_scaled:
  assumes "\<bar>m\<bar> < 2 ^ 53" "1 \<le> i" "\<bar>m * 2 ^ nat i\<bar> \<le> 2 ^ 64" "m \<noteq> 0"
  shows "int64_of_float64 (f64_half (Finite m i)) =
           (if - (2 ^ 63) \<le> m * 2 ^ nat (i - 1) \<and> m * 2 ^ nat (i - 1) < 2 ^ 63
            then Inr (m * 2 ^ nat (i - 1)) else Inl ImplementationDependent)"
proof -
  have "i \<le> 64" using assms(4,3) by (rule exponent_bound)
  then have "i \<le> 971" by linarith
  then show ?thesis
    using assms(1,2) bitlen_small [of m]
    by (simp add: f64_round_exact overflow_check_small Let_def)
qed

lemma half_defined:
  assumes "\<bar>m\<bar> < 2 ^ 53" "0 \<le> e" "- (2 ^ 64) \<le> m * 2 ^ nat e" "m * 2 ^ nat e < 2"
  shows "\<exists>n. int64_of_float64 (f64_half (Finite m e)) = Inr n"
proof (cases "e = 0 \<or> m = 0")
  case True
  then show ?thesis
  proof
    assume "e = 0"
    then show ?thesis using half_small [OF assms(1)] by simp
  next
    assume "m = 0"
    then show ?thesis by (simp add: f64_round_def overflow_check_def Let_def quo_def)
  qed
next
  case False
  then have e1: "1 \<le> e" and m: "m \<noteq> 0" using assms(2) by simp_all
  have e: "nat e = Suc (nat (e - 1))" using e1 by linarith
  have d: "m * 2 ^ nat e = 2 * (m * 2 ^ nat (e - 1))"
    unfolding e by (simp add: mult.left_commute)
  have p: "(2::int) ^ 64 = 2 * 2 ^ 63" "(1::int) \<le> 2 ^ 63" by simp_all
  have r: "- (2 ^ 63) \<le> m * 2 ^ nat (e - 1)" "m * 2 ^ nat (e - 1) < 2 ^ 63"
    using assms(3,4) d p by linarith+
  have "\<bar>m * 2 ^ nat e\<bar> \<le> 2 ^ 64" using assms(3,4) p by linarith
  from half_scaled [OF assms(1) e1 this m] r show ?thesis by simp
qed

lemma jitter_value:
  "0 < n \<Longrightarrow> n < 2 ^ 53 \<Longrightarrow>
   (case Int63n src n of Inl f \<Rightarrow> Inl f | Inr r \<Rightarrow> Inr (wrap64 (n + r))) =
     Inr (n + src mod n)"
proof -
  assume n: "0 < n" "n < 2 ^ 53"
  then have "0 \<le> src mod n" "src mod n < n" by simp_all
  moreover have "(2::int) ^ 54 = 2 * 2 ^ 53" by simp
  ultimately have "\<bar>n + src mod n\<bar> < 2 ^ 54" using n by linarith
  moreover have "(2::int) ^ 54 \<le> 2 ^ 63" by (rule power_increasing) simp_all
  moreover have "(2::int) ^ 64 = 2 * 2 ^ 63" by simp
  ultimately have "0 \<le> n + src mod n + 2 ^ 63" "n + src mod n + 2 ^ 63 < 2 ^ 64"
    by linarith+
  then have "wrap64 (n + src mod n) = n + src mod n"
    by (simp add: wrap64_def del: mod_add_self2)
  with n show ?thesis by (simp add: Int63n_def)
qed

subsection \<open>Wait times of durations that convert exactly\<close>

lemma exponential_no_jitter:
  assumes "0 \<le> init" "init < 2 ^ 53" "\<bar>maxd\<bar> < 2 ^ 53" "0 \<le> i" "0 < init \<or> i < 1024"
  shows "WaitTime (NewExponentialBackoff init maxd False) i resp src =
           Inr (min maxd (init * 2 ^ nat i))"
proof (cases "init = 0")
  case True
  then show ?thesis
    using assms by (simp add: NewExponentialBackoff_def exponential_temp_zero int64_small)
next
  case False
  then have pos: "0 < init" using assms(1) by simp
  then have abs: "\<bar>init\<bar> < 2 ^ 53" using assms(2) by simp
  show ?thesis
  proof (cases "maxd < init * 2 ^ nat i")
    case True
    then show ?thesis
      using assms pos abs
      by (simp add: NewExponentialBackoff_def exponential_temp int64_small
          del: int64_of_float64.simps)
  next
    case False
    then have "init * 2 ^ nat i < 2 ^ 53" "- (2 ^ 53) < init * 2 ^ nat i"
      using assms(3) pos by (auto intro: order.strict_trans1 [of _ 0])
    then have "- (2 ^ 63) \<le> init * 2 ^ nat i \<and> init * 2 ^ nat i < 2 ^ 63"
      by (intro int64_range) linarith
    then show ?thesis
      using False assms pos abs by (simp add: NewExponentialBackoff_def exponential_temp)
  qed
qed

lemma exponential_no_jitter_neg:
  assumes "\<bar>init\<bar> < 2 ^ 53" "\<bar>maxd\<bar> < 2 ^ 53" "init < 0" "0 \<le> i"
    and "- (2 ^ 63) \<le> init * 2 ^ nat i"
  shows "WaitTime (NewExponentialBackoff init maxd False) i resp src =
           Inr (min maxd (init * 2 ^ nat i))"
proof -
  have "(2::int) ^ 63 \<le> 2 ^ 64" by (rule power_increasing) simp_all
  then have "- (2 ^ 64) \<le> init * 2 ^ nat i" using assms(5) by linarith
  with assms(1,2,3,4)
  have temp: "math_Min (float64_of_int maxd) (f64_mul (float64_of_int init) (Exp2 i)) =
      (if maxd < init * 2 ^ nat i then Finite maxd 0 else Finite init i)"
    by (rule exponential_temp_neg)
  have "init * 2 ^ nat i \<le> 0" using assms(3) by (intro nonpos_value) simp
  moreover have "(0::int) < 2 ^ 63" by simp
  ultimately have "init * 2 ^ nat i < 2 ^ 63" by linarith
  then show ?thesis
    using assms(2,4,5)
    by (simp add: NewExponentialBackoff_def temp int64_small del: int64_of_float64.simps)
       simp
qed

lemma exponential_jitter:
  assumes "\<bar>init\<bar> < 2 ^ 53" "\<bar>maxd\<bar> < 2 ^ 53" "0 \<le> i"
    and "1 \<le> min maxd (init * 2 ^ nat i) div 2"
  shows "WaitTime (NewExponentialBackoff init maxd True) i resp src =
           Inr (min maxd (init * 2 ^ nat i) div 2 +
                src mod (min maxd (init * 2 ^ nat i) div 2))"
proof -
  let ?c = "min maxd (init * 2 ^ nat i)"
  have c2: "2 \<le> ?c" using assms(4) by linarith
  then have "0 < init * 2 ^ nat i" by linarith
  then have pos: "0 < init" by (simp add: zero_less_mult_iff)
  have small: "?c div 2 < 2 ^ 53" using assms(2) c2 by linarith
  have temp: "math_Min (float64_of_int maxd) (f64_mul (float64_of_int init) (Exp2 i)) =
      (if maxd < init * 2 ^ nat i then Finite maxd 0 else Finite init i)"
    using assms(1,2) pos assms(3) by (rule exponential_temp)
  have "int64_of_float64 (f64_half
          (math_Min (float64_of_int maxd) (f64_mul (float64_of_int init) (Exp2 i)))) =
        Inr (?c div 2)"
  proof (cases "maxd < init * 2 ^ nat i")
    case True
    then have "?c = maxd" by simp
    with c2 True show ?thesis
      using assms(2)
      by (simp add: temp half_small quo_two del: int64_of_float64.simps f64_half.simps)
  next
    case False
    then have c: "?c = init * 2 ^ nat i" by simp
    show ?thesis
    proof (cases "i = 0")
      case True
      with c c2 False show ?thesis
        using assms(1) temp
        by (simp add: half_small quo_two del: int64_of_float64.simps f64_half.simps)
    next
      case i: False
      then have i1: "1 \<le> i" using assms(3) by linarith
      have b: "\<bar>init * 2 ^ nat i\<bar> < 2 ^ 53" using False assms(2) pos c2 c by linarith
      then have b64: "\<bar>init * 2 ^ nat i\<bar> \<le> 2 ^ 64"
        using power_increasing [of 53 64 "2::int"] by linarith
      have "nat i = Suc (nat (i - 1))" using i1 by linarith
      then have e: "init * 2 ^ nat i = 2 * (init * 2 ^ nat (i - 1))"
        by (metis mult.left_commute power_Suc)
      then have "\<bar>init * 2 ^ nat (i - 1)\<bar> < 2 ^ 53" using b by linarith
      then have r: "- (2 ^ 63) \<le> init * 2 ^ nat (i - 1) \<and> init * 2 ^ nat (i - 1) < 2 ^ 63"
        by (rule int64_range)
      have "init * 2 ^ nat (i - 1) = (2 * (init * 2 ^ nat (i - 1))) div 2" by simp
      then have "init * 2 ^ nat (i - 1) = ?c div 2" unfolding c e [symmetric] .
      with r False show ?thesis
        using half_scaled [OF assms(1) i1 b64] pos
        by (simp add: temp del: int64_of_float64.simps f64_half.simps)
    qed
  qed
  then show ?thesis
    using jitter_value [of "?c div 2" src] assms(4) small
    by (simp add: NewExponentialBackoff_def Let_def del: int64_of_float64.simps f64_half.simps)
qed

subsection \<open>What every conversion to float64 looks like\<close>

lemma nearest_even_bounds:
  "a div 2 ^ s \<le> nearest_even a s \<and> nearest_even a s \<le> a div 2 ^ s + 1"
  by (simp add: nearest_even_def Let_def)

lemma overflow_check_shape:
  assumes "m \<noteq> 0" "bitlen \<bar>m\<bar> \<le> 53" "0 \<le> e" "sgn m = sgn x"
  shows "overflow_check m e = PInf \<and> 0 < x \<or> overflow_check m e = NInf \<and> x < 0 \<or>
    (\<exists>m' e'. overflow_check m e = Finite m' e' \<and> bitlen \<bar>m'\<bar> \<le> 53 \<and> 0 \<le> e' \<and>
       bitlen \<bar>m'\<bar> + e' \<le> 1024 \<and> sgn m' = sgn x)"
proof -
  have p: "0 < m \<Longrightarrow> 0 < x" and n: "m < 0 \<Longrightarrow> x < 0"
    using assms(4) by (metis sgn_greater sgn_less)+
  from overflow_check_cases [OF assms(1), of e] show ?thesis
  proof (elim disjE conjE)
    assume "overflow_check m e = PInf" "0 < m"
    then show ?thesis using p by simp
  next
    assume "overflow_check m e = NInf" "m < 0"
    then show ?thesis using n by simp
  next
    assume "overflow_check m e = Finite m e" "bitlen \<bar>m\<bar> + e \<le> 1024"
    then show ?thesis using assms(2,3,4) by simp
  qed
qed

lemma float64_of_int_shape:
  "float64_of_int x = PInf \<and> 0 < x \<or> float64_of_int x = NInf \<and> x < 0 \<or>
   (\<exists>m e. float64_of_int x = Finite m e \<and> bitlen \<bar>m\<bar> \<le> 53 \<and> 0 \<le> e \<and>
      bitlen \<bar>m\<bar> + e \<le> 1024 \<and> sgn m = sgn x)"
proof (cases "bitlen \<bar>x\<bar> \<le> 53")
  case True
  then have "float64_of_int x = Finite x 0"
    by (simp add: float64_of_int_def f64_round_def overflow_check_def)
  with True show ?thesis by simp
next
  case False
  define s where "s = bitlen \<bar>x\<bar> - 53"
  define q where "q = nearest_even \<bar>x\<bar> (nat s)"
  have s: "0 < s" using False by (simp add: s_def)
  have x0: "0 < \<bar>x\<bar>" using False by (cases "x = 0") auto
  then have x: "x \<noteq> 0" by simp
  have lo: "2 ^ nat (bitlen \<bar>x\<bar> - 1) \<le> \<bar>x\<bar>" and hi: "\<bar>x\<bar> < 2 ^ nat (bitlen \<bar>x\<bar>)"
    using bitlen_bounds [OF x0] by simp_all
  have e1: "nat (bitlen \<bar>x\<bar> - 1) = 52 + nat s" using s by (simp add: s_def)
  have e2: "nat (bitlen \<bar>x\<bar>) = 53 + nat s" using s by (simp add: s_def)
  have "2 ^ 52 * 2 ^ nat s \<le> \<bar>x\<bar>" using lo unfolding e1 power_add .
  moreover have "\<bar>x\<bar> < 2 ^ 53 * 2 ^ nat s" using hi unfolding e2 power_add .
  ultimately have d: "2 ^ 52 \<le> \<bar>x\<bar> div 2 ^ nat s \<and> \<bar>x\<bar> div 2 ^ nat s < 2 ^ 53"
    by (intro div_bounds) simp_all
  have q_lo: "2 ^ 52 \<le> q" and q_hi: "q \<le> 2 ^ 53"
    using nearest_even_bounds [of "\<bar>x\<bar>" "nat s"] d by (simp_all add: q_def)
  have r: "float64_of_int x =
      (if 53 < bitlen q then overflow_check (sgn x * (q div 2)) (s + 1)
       else overflow_check (sgn x * q) s)"
    using s by (simp add: float64_of_int_def f64_round_def Let_def s_def q_def)
  show ?thesis
  proof (cases "53 < bitlen q")
    case True
    then have "\<not> q < 2 ^ 53" using bitlen_le_iff_power [of q 53] by simp
    then have q: "q = 2 ^ 53" using q_hi by simp
    have m: "\<bar>sgn x * (q div 2)\<bar> = 2 ^ 52" using x by (simp add: q abs_mult)
    have b: "bitlen \<bar>sgn x * (q div 2)\<bar> = 53"
      unfolding m using bitlen_twopow_add_eq [of 0 52] by simp
    have sg: "sgn (sgn x * (q div 2)) = sgn x" using x by (simp add: q sgn_mult)
    have nz: "sgn x * (q div 2) \<noteq> 0" using x by (simp add: q sgn_eq_0_iff)
    have "0 \<le> s + 1" using s by simp
    from overflow_check_shape [OF nz _ this sg] b show ?thesis
      unfolding r using True by simp
  next
    case nc: False
    have q0: "0 < q" using q_lo by simp
    have m: "\<bar>sgn x * q\<bar> = q" using x q0 by (simp add: abs_mult)
    have sg: "sgn (sgn x * q) = sgn x" using x q0 by (simp add: sgn_mult)
    have nz: "sgn x * q \<noteq> 0" using x q0 by (simp add: sgn_eq_0_iff)
    have "0 \<le> s" using s by simp
    from overflow_check_shape [OF nz _ this sg] nc show ?thesis
      unfolding r by (simp add: m)
  qed
qed

lemma product_shape:
  assumes "0 \<le> i"
  shows "f64_mul (float64_of_int x) (Exp2 i) = PInf \<and> 0 < x \<or>
         f64_mul (float64_of_int x) (Exp2 i) = NInf \<and> x < 0 \<or>
         f64_mul (float64_of_int x) (Exp2 i) = NaN \<and> x = 0 \<and> 1023 < i \<or>
         (\<exists>m e. f64_mul (float64_of_int x) (Exp2 i) = Finite m e \<and> bitlen \<bar>m\<bar> \<le> 53 \<and>
            0 \<le> e \<and> bitlen \<bar>m\<bar> + e \<le> 1024 \<and> sgn m = sgn x)"
  using float64_of_int_shape [of x]
proof (elim disjE exE conjE)
  assume "float64_of_int x = PInf" "0 < x"
  then show ?thesis using assms by (simp add: Exp2_def)
next
  assume "float64_of_int x = NInf" "x < 0"
  then show ?thesis using assms by (simp add: Exp2_def)
next
  fix m e
  assume f: "float64_of_int x = Finite m e" and v: "bitlen \<bar>m\<bar> \<le> 53" "0 \<le> e"
    "bitlen \<bar>m\<bar> + e \<le> 1024" and sg: "sgn m = sgn x"
  have ex: "\<bar>x\<bar> < 2 ^ 53 \<Longrightarrow> m = x \<and> e = 0"
    using f by (simp add: float64_of_int_exact)
  have p: "0 < m \<longleftrightarrow> 0 < x" and n: "m < 0 \<longleftrightarrow> x < 0" and z: "m = 0 \<longleftrightarrow> x = 0"
    using sg by (metis sgn_greater sgn_less sgn_eq_0_iff)+
  have mul: "f64_mul (float64_of_int x) (Exp2 i) =
     (if 1023 < i then (if 0 < m then PInf else if m < 0 then NInf else NaN)
      else overflow_check m (e + i))"
    unfolding f using v(1,2) assms by (rule mul_Exp2)
  show ?thesis
  proof (cases "1023 < i")
    case True
    then show ?thesis unfolding mul using p n z by auto
  next
    case False
    show ?thesis
    proof (cases "m = 0")
      case True
      then have e0: "e = 0" using z ex by simp
      with True have "overflow_check m (e + i) = Finite 0 (e + i)"
        by (simp add: overflow_check_def)
      then show ?thesis unfolding mul using False True z e0 assms by auto
    next
      case nz: False
      have ei: "0 \<le> e + i" using v(2) assms by simp
      from overflow_check_cases [OF nz, of "e + i"] show ?thesis
        unfolding mul using False p n v(1) ei sg by auto
    qed
  qed
qed

subsection \<open>A clamped value below two nanoseconds\<close>

lemma half_of_low:
  assumes "bitlen \<bar>m\<bar> \<le> 53" "0 \<le> e" "bitlen \<bar>m\<bar> + e \<le> 1024" "m * 2 ^ nat e < 2"
  shows "int64_of_float64 (f64_half (Finite m e)) = Inl ImplementationDependent \<or>
         (\<exists>n. int64_of_float64 (f64_half (Finite m e)) = Inr n \<and> n \<le> 0)"
proof -
  have h: "f64_half (Finite m e) = Finite m (e - 1)"
    using assms(1,2,3) by (simp add: f64_round_exact overflow_check_def)
  show ?thesis
  proof (cases "e = 0")
    case True
    then have "m < 2" using assms(4) by simp
    then have "quo m 2 \<le> 0" by (rule quo_two_le)
    then show ?thesis unfolding h using True by (simp add: Let_def)
  next
    case False
    then have e: "nat e = Suc (nat (e - 1))" using assms(2) by linarith
    have "2 * (m * 2 ^ nat (e - 1)) < 2"
      using assms(4) unfolding e by (simp add: mult.left_commute)
    then have "m * 2 ^ nat (e - 1) \<le> 0" by linarith
    then show ?thesis unfolding h using False assms(2) by (simp add: Let_def)
  qed
qed

lemma low_returns_no_duration:
  assumes "t = NInf \<or> t = NaN \<or>
    (\<exists>m e. t = Finite m e \<and> bitlen \<bar>m\<bar> \<le> 53 \<and> 0 \<le> e \<and> bitlen \<bar>m\<bar> + e \<le> 1024 \<and>
       m * 2 ^ nat e < 2)"
  shows "(case int64_of_float64 (f64_half t) of
            Inl f \<Rightarrow> Inl f
          | Inr n \<Rightarrow> (case Int63n src n of
                       Inl f \<Rightarrow> Inl f
                     | Inr r \<Rightarrow> Inr (wrap64 (n + r)))) \<noteq> Inr d"
  using assms
proof (elim disjE exE conjE)
  fix m e
  assume "t = Finite m e" "bitlen \<bar>m\<bar> \<le> 53" "0 \<le> e" "bitlen \<bar>m\<bar> + e \<le> 1024"
    "m * 2 ^ nat e < 2"
  then show ?thesis
    using half_of_low [of m e]
    by (auto simp: Int63n_def simp del: f64_half.simps int64_of_float64.simps)
qed simp_all

lemma clamped_low:
  assumes i: "0 \<le> i" and c: "min maxd (init * 2 ^ nat i) < 2"
  defines "t \<equiv> math_Min (float64_of_int maxd) (f64_mul (float64_of_int init) (Exp2 i))"
  shows "t = NInf \<or> t = NaN \<or>
    (\<exists>m e. t = Finite m e \<and> bitlen \<bar>m\<bar> \<le> 53 \<and> 0 \<le> e \<and> bitlen \<bar>m\<bar> + e \<le> 1024 \<and>
       m * 2 ^ nat e < 2)"
proof (cases "maxd < 2")
  case True
  have x: "float64_of_int maxd = NInf \<or>
    (\<exists>m e. float64_of_int maxd = Finite m e \<and> bitlen \<bar>m\<bar> \<le> 53 \<and> 0 \<le> e \<and>
       bitlen \<bar>m\<bar> + e \<le> 1024 \<and> m * 2 ^ nat e < 2)"
  proof (cases "0 \<le> maxd")
    case True
    with \<open>maxd < 2\<close> have "\<bar>maxd\<bar> < 2 ^ 53" by simp
    then have "float64_of_int maxd = Finite maxd 0" by (rule float64_of_int_exact)
    moreover have "bitlen \<bar>maxd\<bar> \<le> 53" using \<open>\<bar>maxd\<bar> < 2 ^ 53\<close> by (rule bitlen_small)
    ultimately show ?thesis using \<open>maxd < 2\<close> by simp
  next
    case False
    from float64_of_int_shape [of maxd] show ?thesis
    proof (elim disjE exE conjE)
      fix m e
      assume f: "float64_of_int maxd = Finite m e" "bitlen \<bar>m\<bar> \<le> 53" "0 \<le> e"
        "bitlen \<bar>m\<bar> + e \<le> 1024" and sg: "sgn m = sgn maxd"
      have "m < 0" using sg False by (metis not_le sgn_less)
      then have "m * 2 ^ nat e \<le> 0" by (intro nonpos_value) simp
      then show ?thesis using f by simp
    qed (use False in simp_all)
  qed
  from x show ?thesis
  proof (elim disjE exE conjE)
    assume "float64_of_int maxd = NInf"
    then show ?thesis by (simp add: t_def math_Min_def)
  next
    fix m e
    assume f: "float64_of_int maxd = Finite m e" and v: "bitlen \<bar>m\<bar> \<le> 53" "0 \<le> e"
      "bitlen \<bar>m\<bar> + e \<le> 1024" "m * 2 ^ nat e < 2"
    from product_shape [OF i, of init] show ?thesis
    proof (elim disjE exE conjE)
      assume "f64_mul (float64_of_int init) (Exp2 i) = PInf"
      then show ?thesis using f v by (simp add: t_def math_Min_def)
    next
      assume "f64_mul (float64_of_int init) (Exp2 i) = NInf"
      then show ?thesis by (simp add: t_def math_Min_def)
    next
      assume "f64_mul (float64_of_int init) (Exp2 i) = NaN"
      then show ?thesis using f by (simp add: t_def math_Min_def)
    next
      fix mp ep
      assume p: "f64_mul (float64_of_int init) (Exp2 i) = Finite mp ep" and
        vp: "bitlen \<bar>mp\<bar> \<le> 53" "0 \<le> ep" "bitlen \<bar>mp\<bar> + ep \<le> 1024"
      show ?thesis
      proof (cases "m * 2 ^ nat e < mp * 2 ^ nat ep")
        case True
        then have "t = Finite m e"
          using f p v(2) vp(2)
          by (simp add: t_def math_Min_def f64_less_value del: f64_less.simps)
        then show ?thesis using v by simp
      next
        case False
        then have "t = Finite mp ep"
          using f p v(2) vp(2)
          by (simp add: t_def math_Min_def f64_less_value del: f64_less.simps)
        moreover have "mp * 2 ^ nat ep < 2" using False v(4) by linarith
        ultimately show ?thesis using vp by simp
      qed
    qed
  qed
next
  case False
  then have m2: "2 \<le> maxd" and ci: "init * 2 ^ nat i < 2" using c by simp_all
  have x: "float64_of_int maxd = PInf \<or>
    (\<exists>m e. float64_of_int maxd = Finite m e \<and> 0 \<le> e \<and> 1 \<le> m * 2 ^ nat e)"
    using float64_of_int_shape [of maxd]
  proof (elim disjE exE conjE)
    fix m e
    assume f: "float64_of_int maxd = Finite m e" "0 \<le> e" and sg: "sgn m = sgn maxd"
    have "0 < m" using sg m2 by (metis less_le_trans zero_less_numeral sgn_greater)
    then have "1 \<le> m * 2 ^ nat e" by (rule pos_value)
    then show ?thesis using f by simp
  qed (use m2 in simp_all)
  have p: "f64_mul (float64_of_int init) (Exp2 i) = NInf \<or>
    f64_mul (float64_of_int init) (Exp2 i) = NaN \<or>
    (\<exists>m e. f64_mul (float64_of_int init) (Exp2 i) = Finite m e \<and> bitlen \<bar>m\<bar> \<le> 53 \<and>
       0 \<le> e \<and> bitlen \<bar>m\<bar> + e \<le> 1024 \<and> m * 2 ^ nat e \<le> 1)"
  proof (cases "init \<le> 0")
    case True
    from product_shape [OF i, of init] show ?thesis
    proof (elim disjE exE conjE)
      fix m e
      assume f: "f64_mul (float64_of_int init) (Exp2 i) = Finite m e" "bitlen \<bar>m\<bar> \<le> 53"
        "0 \<le> e" "bitlen \<bar>m\<bar> + e \<le> 1024" and sg: "sgn m = sgn init"
      have "m \<le> 0" using sg True by (metis not_le sgn_greater)
      then have "m * 2 ^ nat e \<le> 0" by (rule nonpos_value)
      then show ?thesis using f by simp
    qed (use True in simp_all)
  next
    case False
    have "i = 0"
    proof (rule ccontr)
      assume "i \<noteq> 0"
      then have "nat i = Suc (nat (i - 1))" using i by linarith
      then have "init * 2 ^ nat i = 2 * (init * 2 ^ nat (i - 1))"
        by (simp add: mult.left_commute)
      moreover have "1 \<le> init * 2 ^ nat (i - 1)" using False by (intro pos_value) simp
      ultimately show False using ci by linarith
    qed
    with ci False have "init = 1" by simp
    then have "f64_mul (float64_of_int init) (Exp2 i) = Finite 1 0"
      using \<open>i = 0\<close>
      by (simp add: float64_of_int_exact Exp2_def f64_round_def overflow_check_def
          compute_bitlen)
    then show ?thesis by (simp add: bitlen_le_iff_power)
  qed
  from p show ?thesis
  proof (elim disjE exE conjE)
    assume "f64_mul (float64_of_int init) (Exp2 i) = NInf"
    then show ?thesis by (simp add: t_def math_Min_def)
  next
    assume "f64_mul (float64_of_int init) (Exp2 i) = NaN"
    then show ?thesis using x by (auto simp: t_def math_Min_def)
  next
    fix mp ep
    assume f: "f64_mul (float64_of_int init) (Exp2 i) = Finite mp ep" and
      vp: "bitlen \<bar>mp\<bar> \<le> 53" "0 \<le> ep" "bitlen \<bar>mp\<bar> + ep \<le> 1024"
        "mp * 2 ^ nat ep \<le> 1"
    have "t = Finite mp ep"
      using x
    proof (elim disjE exE conjE)
      assume "float64_of_int maxd = PInf"
      then show ?thesis using f by (simp add: t_def math_Min_def)
    next
      fix m e
      assume g: "float64_of_int maxd = Finite m e" "0 \<le> e" "1 \<le> m * 2 ^ nat e"
      then have "\<not> m * 2 ^ nat e < mp * 2 ^ nat ep" using vp(4) by linarith
      then show ?thesis
        using f g vp(2) by (simp add: t_def math_Min_def f64_less_value del: f64_less.simps)
    qed
    then show ?thesis using vp by simp
  qed
qed

lemma exponential_jitter_no_duration:
  assumes "0 \<le> i" "min maxd (init * 2 ^ nat i) < 2"
  shows "WaitTime (NewExponentialBackoff init maxd True) i resp src \<noteq> Inr d"
  using low_returns_no_duration [OF clamped_low [OF assms], of src d]
  by (simp add: NewExponentialBackoff_def Let_def del: f64_half.simps int64_of_float64.simps)

lemma exponential_jitter_panics:
  assumes "\<bar>init\<bar> < 2 ^ 53" "\<bar>maxd\<bar> < 2 ^ 53" "0 \<le> i" "min maxd (init * 2 ^ nat i) < 2"
    and "- (2 ^ 64) \<le> init * 2 ^ nat i" "init \<noteq> 0 \<or> i < 1024"
  shows "WaitTime (NewExponentialBackoff init maxd True) i resp src = Inl Panic"
proof -
  let ?t = "math_Min (float64_of_int maxd) (f64_mul (float64_of_int init) (Exp2 i))"
  have t: "?t = (if maxd < init * 2 ^ nat i then Finite maxd 0 else Finite init i)"
  proof (cases "0 < init")
    case True
    with assms(1,2) show ?thesis using assms(3) by (rule exponential_temp)
  next
    case False
    show ?thesis
    proof (cases "init = 0")
      case True
      then show ?thesis using exponential_temp_zero [OF assms(2,3)] assms(6) by simp
    next
      case nz: False
      then have "init < 0" using False by simp
      with assms(1,2) show ?thesis using assms(3,5) by (rule exponential_temp_neg)
    qed
  qed
  have "- (2 ^ 64) \<le> maxd"
    using int64_range [OF assms(2)] power_increasing [of 63 64 "2::int"] by linarith
  then have "\<exists>n. int64_of_float64 (f64_half ?t) = Inr n"
    unfolding t using assms half_defined [of maxd 0] half_defined [of init i] by auto
  then obtain n where n: "int64_of_float64 (f64_half ?t) = Inr n" ..
  have "WaitTime (NewExponentialBackoff init maxd True) i resp src \<noteq>
      Inr (wrap64 (n + src mod n))"
    using assms(3,4) by (rule exponential_jitter_no_duration)
  then show ?thesis
    using n by (simp add: NewExponentialBackoff_def Let_def Int63n_def
        del: f64_half.simps int64_of_float64.simps split: if_splits)
qed

lemma constant_jitter_panics:
  "init \<le> 0 \<Longrightarrow> WaitTime (NewConstantBackoff init True) i resp src = Inl Panic"
  by (simp add: NewConstantBackoff_def Int63n_def)

text \<open>
  With durations that convert exactly, the jittered exponential wait stays below the
  clamped value, hence below \<open>maxDuration\<close>: the jitter is drawn below half of the
  clamped value and added to that half.
\<close>

lemma exponential_jitter_below_cap:
  assumes "\<bar>init\<bar> < 2 ^ 53" "\<bar>maxd\<bar> < 2 ^ 53" "0 \<le> i"
    and "WaitTime (NewExponentialBackoff init maxd True) i resp src = Inr d"
  shows "d < min maxd (init * 2 ^ nat i)"
proof (cases "1 \<le> min maxd (init * 2 ^ nat i) div 2")
  case True
  let ?h = "min maxd (init * 2 ^ nat i) div 2"
  have "d = ?h + src mod ?h"
    using exponential_jitter [OF assms(1,2,3) True, of resp src] assms(4) by simp
  moreover have "src mod ?h < ?h" using True by simp
  ultimately show ?thesis by linarith
next
  case False
  then have "min maxd (init * 2 ^ nat i) < 2" by linarith
  with assms(3) have "WaitTime (NewExponentialBackoff init maxd True) i resp src \<noteq> Inr d"
    by (rule exponential_jitter_no_duration)
  with assms(4) show ?thesis by simp
qed

subsection \<open>The jittered wait against the clamped value\<close>

text \<open>
  At an attempt index that is not negative the clamped value \<open>temp\<close> is a float64 with
  an exponent that is not negative, at most the float64 of \<open>maxDuration\<close>. Halving it is
  exact, and the jittered wait \<open>n + rand.Int63n(n)\<close> is below \<open>2 * n\<close>, hence below
  \<open>temp\<close>, which is what \<open>WaitTime\<close> returns without jitter.
\<close>

lemma wrap64_le: "- (2 ^ 63) \<le> x \<Longrightarrow> wrap64 x \<le> x"
proof -
  assume "- (2 ^ 63) \<le> x"
  then have "0 \<le> x + 2 ^ 63" by simp
  then have "(x + 2 ^ 63) mod 2 ^ 64 \<le> x + 2 ^ 63" by (rule zmod_le_nonneg_dividend)
  then show ?thesis by (simp add: wrap64_def)
qed

lemma jitter_below_value:
  assumes "bitlen \<bar>m\<bar> \<le> 53" "0 \<le> e" "bitlen \<bar>m\<bar> + e \<le> 1024"
    and "(case int64_of_float64 (f64_half (Finite m e)) of
            Inl f \<Rightarrow> Inl f
          | Inr n \<Rightarrow> (case Int63n src n of
                       Inl f \<Rightarrow> Inl f
                     | Inr r \<Rightarrow> Inr (wrap64 (n + r)))) = Inr d"
  shows "d < m * 2 ^ nat e"
proof -
  have h: "f64_half (Finite m e) = Finite m (e - 1)"
    using assms(1,2,3) by (simp add: f64_round_exact overflow_check_def)
  define n where "n = (if e = 0 then quo m 2 else m * 2 ^ nat (e - 1))"
  have v: "int64_of_float64 (f64_half (Finite m e)) =
      (if - (2 ^ 63) \<le> n \<and> n < 2 ^ 63 then Inr n else Inl ImplementationDependent)"
    unfolding h n_def using assms(2) by (simp add: Let_def)
  from assms(4) have r: "- (2 ^ 63) \<le> n" "n < 2 ^ 63" and p: "0 < n"
    and d: "d = wrap64 (n + src mod n)"
    unfolding v by (auto simp: Int63n_def split: if_splits)
  have s: "0 \<le> src mod n" "src mod n < n" using p by simp_all
  have "- (2 ^ 63) \<le> n + src mod n" using r(1) s(1) by linarith
  then have "d \<le> n + src mod n" unfolding d by (rule wrap64_le)
  then have d2: "d < 2 * n" using s(2) by linarith
  show ?thesis
  proof (cases "e = 0")
    case True
    then have q: "n = quo m 2" by (simp add: n_def)
    have "0 \<le> m"
    proof (rule ccontr)
      assume "\<not> 0 \<le> m"
      then have "m < 2" by simp
      then have "quo m 2 \<le> 0" by (rule quo_two_le)
      with p q show False by simp
    qed
    then have "n = m div 2" using q by (simp add: quo_two)
    then have "2 * n \<le> m" by simp
    then show ?thesis using d2 True by simp
  next
    case False
    then have "nat e = Suc (nat (e - 1))" using assms(2) by linarith
    then have "m * 2 ^ nat e = 2 * (m * 2 ^ nat (e - 1))"
      by (metis mult.left_commute power_Suc)
    moreover have "n = m * 2 ^ nat (e - 1)" using False by (simp add: n_def)
    ultimately show ?thesis using d2 by linarith
  qed
qed

lemma clamped_shape:
  fixes maxd init i :: int
  assumes i: "0 \<le> i"
  defines "t \<equiv> math_Min (float64_of_int maxd) (f64_mul (float64_of_int init) (Exp2 i))"
  shows "t = PInf \<or> t = NInf \<or> t = NaN \<or>
    (\<exists>m e. t = Finite m e \<and> bitlen \<bar>m\<bar> \<le> 53 \<and> 0 \<le> e \<and> bitlen \<bar>m\<bar> + e \<le> 1024 \<and>
       (\<forall>mc ec. float64_of_int maxd = Finite mc ec \<longrightarrow> m * 2 ^ nat e \<le> mc * 2 ^ nat ec))"
  using float64_of_int_shape [of maxd]
proof (elim disjE exE conjE)
  assume "float64_of_int maxd = NInf"
  then show ?thesis by (simp add: t_def math_Min_def)
next
  assume c: "float64_of_int maxd = PInf"
  from product_shape [OF i, of init] show ?thesis
  proof (elim disjE exE conjE)
    fix mp ep
    assume p: "f64_mul (float64_of_int init) (Exp2 i) = Finite mp ep" and
      vp: "bitlen \<bar>mp\<bar> \<le> 53" "0 \<le> ep" "bitlen \<bar>mp\<bar> + ep \<le> 1024"
    have "t = Finite mp ep" using c p by (simp add: t_def math_Min_def)
    then show ?thesis using vp c by simp
  qed (simp_all add: t_def math_Min_def c)
next
  fix m e
  assume f: "float64_of_int maxd = Finite m e" and v: "bitlen \<bar>m\<bar> \<le> 53" "0 \<le> e"
    "bitlen \<bar>m\<bar> + e \<le> 1024"
  from product_shape [OF i, of init] show ?thesis
  proof (elim disjE exE conjE)
    assume "f64_mul (float64_of_int init) (Exp2 i) = PInf"
    then have "t = Finite m e" using f by (simp add: t_def math_Min_def)
    then show ?thesis using v f by simp
  next
    assume "f64_mul (float64_of_int init) (Exp2 i) = NInf"
    then show ?thesis by (simp add: t_def math_Min_def)
  next
    assume "f64_mul (float64_of_int init) (Exp2 i) = NaN"
    then show ?thesis using f by (simp add: t_def math_Min_def)
  next
    fix mp ep
    assume p: "f64_mul (float64_of_int init) (Exp2 i) = Finite mp ep" and
      vp: "bitlen \<bar>mp\<bar> \<le> 53" "0 \<le> ep" "bitlen \<bar>mp\<bar> + ep \<le> 1024"
    show ?thesis
    proof (cases "m * 2 ^ nat e < mp * 2 ^ nat ep")
      case True
      then have "t = Finite m e"
        using f p v(2) vp(2)
        by (simp add: t_def math_Min_def f64_less_value del: f64_less.simps)
      then show ?thesis using v f by simp
    next
      case False
      then have "t = Finite mp ep"
        using f p v(2) vp(2)
        by (simp add: t_def math_Min_def f64_less_value del: f64_less.simps)
      moreover have "mp * 2 ^ nat ep \<le> m * 2 ^ nat e" using False by linarith
      ultimately show ?thesis using vp f by simp
    qed
  qed
qed

lemma exponential_jitter_below_clamped:
  assumes "0 \<le> i" "WaitTime (NewExponentialBackoff init maxd True) i resp src = Inr d"
  shows "\<exists>m e. math_Min (float64_of_int maxd) (f64_mul (float64_of_int init) (Exp2 i)) =
           Finite m e \<and> 0 \<le> e \<and> d < m * 2 ^ nat e \<and>
           (\<forall>mc ec. float64_of_int maxd = Finite mc ec \<longrightarrow> m * 2 ^ nat e \<le> mc * 2 ^ nat ec)"
proof -
  let ?t = "math_Min (float64_of_int maxd) (f64_mul (float64_of_int init) (Exp2 i))"
  have j: "(case int64_of_float64 (f64_half ?t) of
            Inl f \<Rightarrow> Inl f
          | Inr n \<Rightarrow> (case Int63n src n of
                       Inl f \<Rightarrow> Inl f
                     | Inr r \<Rightarrow> Inr (wrap64 (n + r)))) = Inr d"
    using assms(2)
    by (simp add: NewExponentialBackoff_def Let_def del: f64_half.simps int64_of_float64.simps)
  from clamped_shape [OF assms(1), of maxd init] show ?thesis
  proof (elim disjE exE conjE)
    fix m e
    assume t: "?t = Finite m e" and v: "bitlen \<bar>m\<bar> \<le> 53" "0 \<le> e" "bitlen \<bar>m\<bar> + e \<le> 1024"
      and c: "\<forall>mc ec. float64_of_int maxd = Finite mc ec \<longrightarrow> m * 2 ^ nat e \<le> mc * 2 ^ nat ec"
    have "d < m * 2 ^ nat e" using v j [unfolded t] by (rule jitter_below_value)
    then show ?thesis using t v(2) c by simp
  qed (use j in simp_all)
qed

lemma exponential_no_jitter_clamped:
  assumes "math_Min (float64_of_int maxd) (f64_mul (float64_of_int init) (Exp2 i)) = Finite m e"
    "0 \<le> e" "WaitTime (NewExponentialBackoff init maxd False) i resp src = Inr d"
  shows "d = m * 2 ^ nat e"
  using assms by (simp add: NewExponentialBackoff_def Let_def split: if_splits)

text \<open>The definitions that evaluate a wait time at given numbers.\<close>

lemmas WaitTime_eval =
  NewExponentialBackoff_def NewConstantBackoff_def float64_of_int_def f64_round_def
  nearest_even_def overflow_check_def Let_def compute_bitlen Exp2_def math_Min_def quo_def
  Int63n_def wrap64_def

text \<open>The same without the wrap-around of the sum, for a draw that is not given.\<close>

lemmas WaitTime_unwrapped =
  NewExponentialBackoff_def float64_of_int_def f64_round_def nearest_even_def
  overflow_check_def Let_def compute_bitlen Exp2_def math_Min_def quo_def Int63n_def

lemma jittered_draw_below:
  assumes "0 < n" shows "wrap64 (n + src mod n) < 2 * n"
proof -
  have s: "0 \<le> src mod n" "src mod n < n" using assms by simp_all
  have "(0::int) < 2 ^ 63" by simp
  then have "- (2 ^ 63) \<le> n + src mod n" using assms s(1) by linarith
  then have "wrap64 (n + src mod n) \<le> n + src mod n" by (rule wrap64_le)
  then show ?thesis using s(2) by linarith
qed


section \<open>The execution loop, one iteration at a time\<close>

declare retry_loop.simps [simp del]

lemma attempt_attempt [simp]:
  "attempt g c i req (attempt g c j req' resp) = attempt g c i req resp"
  by (simp add: attempt_def)

lemma regenerate_fields [simp]:
  "retrier (regenerate req) = retrier req" "ctx (regenerate req) = ctx req"
  "GetBody (regenerate req) = GetBody req"
  by (simp_all add: regenerate_def split: option.splits)

lemma regenerate_idem [simp]: "regenerate (regenerate req) = regenerate req"
  by (simp add: regenerate_def split: option.splits)

lemma retry_loop_exit:
  assumes "retrier req = Some r" "maxAttempts r \<le> i"
  shows "retry_loop g c i req st = Returned st"
  by (subst retry_loop.simps) (use assms in simp)

lemma retry_loop_last:
  assumes "retrier req = Some r" "i < maxAttempts r"
    and "Err_after (ctx req) i \<noteq> None \<or> maxAttempts r - 1 \<le> i \<or>
         \<not> on r (attempt g c i req (response st))"
  shows "retry_loop g c i req st =
    Returned \<lparr>response = attempt g c i req (response st), attempts = attempts st @ [req]\<rparr>"
  using assms by (subst retry_loop.simps) (auto simp: Let_def)

lemma retry_loop_backoff:
  assumes "retrier req = Some r" "i < maxAttempts r - 1" "Err_after (ctx req) i = None"
    and "on r (attempt g c i req (response st))" "backoff r = Some b"
  shows "retry_loop g c i req st =
    (case WaitTime b i (attempt g c i req (response st)) (rand_Int63 g i) of
       Inl f \<Rightarrow>
         Panicked \<lparr>response = attempt g c i req (response st), attempts = attempts st @ [req]\<rparr>
     | Inr d \<Rightarrow>
         (case Done_in_backoff (ctx req) i of
            Some e \<Rightarrow>
              Returned \<lparr>response = (attempt g c i req (response st))\<lparr>err := Some e\<rparr>,
                        attempts = attempts st @ [req]\<rparr>
          | None \<Rightarrow>
              retry_loop g c (i + 1) (regenerate req)
                \<lparr>response = attempt g c i req (response st), attempts = attempts st @ [req]\<rparr>))"
  using assms by (subst retry_loop.simps) (auto simp: Let_def split: sum.splits option.splits)

lemma on_single_trigger: "triggers r = [t] \<Longrightarrow> t resp \<Longrightarrow> on r resp"
  by (simp add: on_def)

lemma range_triggers_iff: "range_triggers ts resp = (\<exists>t \<in> set ts. t resp)"
  by (induction ts) auto

text \<open>
  With a trigger that always fires, a context that never fires and a backoff that
  returns, the loop entered at \<open>i\<close> runs up to the last index.
\<close>

lemma retry_loop_runs:
  assumes r: "retrier req = Some r" "triggers r = [t]" "\<forall>resp. t resp"
    and cx: "\<forall>j. Err_after (ctx req) j = None" "\<forall>j. Done_in_backoff (ctx req) j = None"
    and w: "\<forall>j resp. 0 \<le> j \<and> j < maxAttempts r - 1 \<longrightarrow>
              (\<exists>b d. backoff r = Some b \<and> WaitTime b j resp (rand_Int63 g j) = Inr d)"
    and i: "0 \<le> i" "i < maxAttempts r" "n = nat (maxAttempts r - 1 - i)"
  shows "retry_loop g c i req st =
    Returned \<lparr>response = attempt g c (maxAttempts r - 1)
                            (if i = maxAttempts r - 1 then req else regenerate req) (response st),
              attempts = attempts st @ req # replicate n (regenerate req)\<rparr>"
  using r cx i
proof (induction n arbitrary: i req st)
  case 0
  then have "i = maxAttempts r - 1" by simp
  with 0 show ?case by (simp add: retry_loop_last)
next
  case (Suc n)
  then have lt: "i < maxAttempts r - 1" by linarith
  obtain b d where b: "backoff r = Some b"
    and d: "WaitTime b i (attempt g c i req (response st)) (rand_Int63 g i) = Inr d"
    using w lt Suc.prems by blast
  have on: "on r (attempt g c i req (response st))"
    using Suc.prems(2,3) by (simp add: on_single_trigger)
  have step: "retry_loop g c i req st = retry_loop g c (i + 1) (regenerate req)
      \<lparr>response = attempt g c i req (response st), attempts = attempts st @ [req]\<rparr>"
    using retry_loop_backoff [where g = g and c = c and st = st, OF Suc.prems(1) lt _ on b]
      Suc.prems(4,5) d
    by simp
  have "retry_loop g c (i + 1) (regenerate req)
      \<lparr>response = attempt g c i req (response st), attempts = attempts st @ [req]\<rparr> =
    Returned \<lparr>response = attempt g c (maxAttempts r - 1)
        (if i + 1 = maxAttempts r - 1 then regenerate req else regenerate (regenerate req))
        (response \<lparr>response = attempt g c i req (response st),
                   attempts = attempts st @ [req]\<rparr>),
      attempts =
        attempts \<lparr>response = attempt g c i req (response st), attempts = attempts st @ [req]\<rparr>
        @ regenerate req # replicate n (regenerate (regenerate req))\<rparr>"
    using Suc.prems lt by (intro Suc.IH) simp_all
  then show ?case
    using lt unfolding step by (simp add: replicate_app_Cons_same)
qed

text \<open>A request that regenerates to itself is the only request the loop sends.\<close>

lemma retry_loop_attempts:
  "regenerate req = req \<Longrightarrow>
   set (attempts (final (retry_loop g c i req st))) \<subseteq> insert req (set (attempts st))"
proof (induction g c i req st rule: retry_loop.induct)
  case (1 g c i req st)
  show ?case
    using "1.prems" "1.IH"
    by (subst retry_loop.simps) (auto simp: Let_def split: option.splits sum.splits)
qed

subsection \<open>Body replay\<close>

lemma SetBody_buffer:
  "\<exists>rd. Body (SetBody req (Some (BytesBuffer buf))) = Some rd \<and>
        GetBody (SetBody req (Some (BytesBuffer buf))) = Some (Some rd, None) \<and>
        ReadFrom rd = (buf, None)"
  by (cases buf) (simp_all add: SetBody_def snapshot_def Let_def)

lemma SetBody_retrier [simp]: "retrier (SetBody req b) = retrier req"
  by (simp add: SetBody_def snapshot_def Let_def split: option.splits reader.splits)

lemma regenerate_SetBody_buffer:
  "regenerate (SetBody req (Some (BytesBuffer buf))) = SetBody req (Some (BytesBuffer buf))"
  using SetBody_buffer [of req buf] by (auto simp: regenerate_def)

lemma prepare_drains:
  assumes "Body req = Some b" "GetBody req = None" "retrier req = Some r" "1 < maxAttempts r"
  shows "prepare req =
    (case snd (drainBody b) of
       Some e \<Rightarrow> Inl e
     | None \<Rightarrow> Inr (SetBody req (Some (BytesBuffer (fst (drainBody b))))))"
  using assms by (simp add: prepare_def split: prod.splits option.splits)

lemma prepare_buffered:
  "retrier req = Some r \<Longrightarrow>
   prepare (SetBody req (Some (BytesBuffer buf))) = Inr (SetBody req (Some (BytesBuffer buf)))"
  using SetBody_buffer [of req buf] by (auto simp: prepare_def split: option.splits)

subsection \<open>The examples, evaluated\<close>

lemma do_client500: "do runtime0 client500 i req = (Some status500, None)"
  by (simp add: do_def client500_def always500_def status500_def Header_Get_def EqualFold_def)

lemma do_client200: "do runtime0 client200 i req = (Some status200, None)"
  by (simp add: do_def client200_def always200_def status200_def Header_Get_def EqualFold_def)

lemma do_rejecting_client: "do runtime0 rejecting_client i req = (Some status500, None)"
  by (simp add: do_def rejecting_client_def always500_def status500_def Header_Get_def
      EqualFold_def)

lemma attempt_client500:
  "attempt runtime0 client500 i req resp = resp\<lparr>Raw := Some status500, err := None\<rparr>"
  by (simp add: attempt_def do_client500)

lemma attempt_client200:
  "attempt runtime0 client200 i req resp = resp\<lparr>Raw := Some status200, err := None\<rparr>"
  by (simp add: attempt_def do_client200)

lemma on_always_retry: "triggers r = [always_retry] \<Longrightarrow> on r resp"
  by (simp add: on_def always_retry_def)

lemma retrier_fields [simp]:
  "maxAttempts (NewRetrier n b ts) = n" "backoff (NewRetrier n b ts) = b"
  "triggers (NewRetrier n b ts) = ts"
  by (simp_all add: NewRetrier_def)

lemma plain_request_fields [simp]:
  "Body plain_request = None" "GetBody plain_request = None" "retrier plain_request = None"
  "ctx plain_request = Background"
  by (simp_all add: plain_request_def)

lemma Background_fields [simp]:
  "Err_after Background i = None" "Done_in_backoff Background i = None"
  by (simp_all add: Background_def)

lemma admit_no_limiter [simp]:
  "admit client500 req = None" "admit client200 req = None" "admit rejecting_client req = None"
  by (simp_all add: admit_def client500_def client200_def rejecting_client_def)

text \<open>A request made with an empty method is a \<open>GET\<close>.\<close>

lemma NewRequest_empty_method: "NewRequest g [] url opts = NewRequest g ''GET'' url opts"
  by (simp add: NewRequest_def)

section \<open>The retry decision\<close>

text \<open>
  C4. \<open>Retrier.on\<close> answers true exactly when the trigger list is not empty and some
  trigger answers true on the response, the triggers being tried in the order of their
  registration; a retrier without triggers answers false on every response, whatever
  the response carries.
\<close>

theorem on_iff_some_trigger:
  "on r resp = (triggers r \<noteq> [] \<and> (\<exists>t \<in> set (triggers r). t resp)) \<and>
   on (r\<lparr>triggers := []\<rparr>) resp = False"
  by (auto simp: on_def range_triggers_iff)

theorem on_iff_some_trigger_witness:
  "on (NewRetrier 3 (Some (NewConstantBackoff 100000000 False)) [])
      (new_Response\<lparr>err := Some errRead\<rparr>) = False \<and>
   on constant_retrier new_Response = True"
  using on_iff_some_trigger [of "NewRetrier 3 (Some (NewConstantBackoff 100000000 False)) []"
      "new_Response\<lparr>err := Some errRead\<rparr>"]
    on_iff_some_trigger [of constant_retrier new_Response]
  by (simp add: constant_retrier_def always_retry_def)

section \<open>Wait times\<close>

text \<open>
  C5, as the code has it. The jitter never raises the wait time of the exponential
  backoff. At every attempt index that is not negative, a wait time returned with
  jitter is strictly below the float64 value of \<open>maxDuration\<close> and strictly below the
  wait time returned without jitter; when \<open>maxDuration\<close> has a magnitude below \<open>2 ^ 53\<close>
  nanoseconds, which float64 holds exactly, it is strictly below \<open>maxDuration\<close>. A wait
  time above \<open>maxDuration\<close> comes from the conversion \<open>float64(eb.maxDuration)\<close> alone,
  which can round upwards from \<open>2 ^ 53\<close> nanoseconds on: \<open>maxDuration = 2 ^ 55 + 13\<close> is
  converted to \<open>2 ^ 55 + 16\<close>, and with \<open>initialDuration = maxDuration\<close> the wait time
  at index \<open>0\<close> is \<open>2 ^ 55 + 16\<close> without jitter and \<open>2 ^ 55 + 15\<close> for the largest draw
  with jitter.
\<close>

theorem exponential_jitter_never_raises:
  "(0 \<le> i \<and> WaitTime (NewExponentialBackoff init maxd True) i resp src = Inr d \<longrightarrow>
      (\<forall>m e. float64_of_int maxd = Finite m e \<longrightarrow> d < m * 2 ^ nat e) \<and>
      (\<forall>resp' src' d'.
         WaitTime (NewExponentialBackoff init maxd False) i resp' src' = Inr d' \<longrightarrow> d < d') \<and>
      (\<bar>maxd\<bar> < 2 ^ 53 \<longrightarrow> d < maxd)) \<and>
   float64_of_int 36028797018963981 = Finite 4503599627370498 3 \<and>
   WaitTime (NewExponentialBackoff 36028797018963981 36028797018963981 True) 0 resp
     18014398509481991 = Inr 36028797018963983 \<and>
   WaitTime (NewExponentialBackoff 36028797018963981 36028797018963981 False) 0 resp src =
     Inr 36028797018963984"
proof (intro conjI impI allI)
  assume a: "0 \<le> i \<and> WaitTime (NewExponentialBackoff init maxd True) i resp src = Inr d"
  then obtain m e where
    t: "math_Min (float64_of_int maxd) (f64_mul (float64_of_int init) (Exp2 i)) = Finite m e"
    and e: "0 \<le> e" and d: "d < m * 2 ^ nat e"
    and c: "\<forall>mc ec. float64_of_int maxd = Finite mc ec \<longrightarrow> m * 2 ^ nat e \<le> mc * 2 ^ nat ec"
    using exponential_jitter_below_clamped [of i init maxd resp src d] by blast
  {
    fix mc ec
    assume "float64_of_int maxd = Finite mc ec"
    then have "m * 2 ^ nat e \<le> mc * 2 ^ nat ec" using c by blast
    then show "d < mc * 2 ^ nat ec" using d by linarith
  }
  {
    fix resp' src' d'
    assume "WaitTime (NewExponentialBackoff init maxd False) i resp' src' = Inr d'"
    with t e have "d' = m * 2 ^ nat e" by (rule exponential_no_jitter_clamped)
    then show "d < d'" using d by simp
  }
  {
    assume "\<bar>maxd\<bar> < 2 ^ 53"
    then have "float64_of_int maxd = Finite maxd 0" by (rule float64_of_int_exact)
    then have "m * 2 ^ nat e \<le> maxd * 2 ^ nat 0" using c by blast
    then show "d < maxd" using d by simp
  }
next
  show "float64_of_int 36028797018963981 = Finite 4503599627370498 3"
    by (simp add: WaitTime_eval)
next
  show "WaitTime (NewExponentialBackoff 36028797018963981 36028797018963981 True) 0 resp
     18014398509481991 = Inr 36028797018963983"
    by (simp add: WaitTime_eval)
next
  show "WaitTime (NewExponentialBackoff 36028797018963981 36028797018963981 False) 0 resp src =
     Inr 36028797018963984"
    by (simp add: WaitTime_eval)
qed

theorem exponential_jitter_never_raises_witness:
  "WaitTime (NewExponentialBackoff 1000000000 30000000000 True) 5 new_Response 14999999999 =
     Inr 29999999999 \<and>
   float64_of_int 30000000000 = Finite 30000000000 0 \<and>
   WaitTime (NewExponentialBackoff 1000000000 30000000000 False) 5 new_Response 0 =
     Inr 30000000000 \<and>
   (29999999999::int) < 30000000000 \<and>
   WaitTime (NewExponentialBackoff 36028797018963981 36028797018963981 True) 0 new_Response
     18014398509481991 = Inr 36028797018963983 \<and>
   (36028797018963981::int) < 36028797018963983"
  using exponential_jitter_never_raises [where i = 5 and init = 1000000000 and
      maxd = 30000000000 and resp = new_Response and src = 14999999999 and d = 29999999999]
  by (simp add: WaitTime_eval)

theorem exponential_jitter_lowers_counterexample:
  "WaitTime (NewExponentialBackoff 36028797018963981 36028797018963981 False) 0 new_Response 0 =
     Inr 36028797018963984 \<and>
   (\<forall>src. \<exists>d. WaitTime (NewExponentialBackoff 36028797018963981 36028797018963981 True) 0
       new_Response src = Inr d \<and> d < 36028797018963984) \<and>
   WaitTime (NewExponentialBackoff 1000000000 30000000000 False) 5 new_Response 0 =
     Inr 30000000000 \<and>
   (\<forall>src. \<exists>d. WaitTime (NewExponentialBackoff 1000000000 30000000000 True) 5
       new_Response src = Inr d \<and> d < 30000000000)"
proof (intro conjI allI)
  show "WaitTime (NewExponentialBackoff 36028797018963981 36028797018963981 False) 0
      new_Response 0 = Inr 36028797018963984"
    by (simp add: WaitTime_eval)
next
  fix src
  have "WaitTime (NewExponentialBackoff 36028797018963981 36028797018963981 True) 0
      new_Response src = Inr (wrap64 (18014398509481992 + src mod 18014398509481992))"
    by (simp add: WaitTime_unwrapped)
  moreover have "wrap64 (18014398509481992 + src mod 18014398509481992) <
      2 * 18014398509481992"
    by (rule jittered_draw_below) simp
  ultimately show "\<exists>d. WaitTime (NewExponentialBackoff 36028797018963981 36028797018963981
      True) 0 new_Response src = Inr d \<and> d < 36028797018963984"
    by simp
next
  show "WaitTime (NewExponentialBackoff 1000000000 30000000000 False) 5 new_Response 0 =
     Inr 30000000000"
    by (simp add: WaitTime_eval)
next
  fix src
  have "WaitTime (NewExponentialBackoff 1000000000 30000000000 True) 5
      new_Response src = Inr (wrap64 (15000000000 + src mod 15000000000))"
    by (simp add: WaitTime_unwrapped)
  moreover have "wrap64 (15000000000 + src mod 15000000000) < 2 * 15000000000"
    by (rule jittered_draw_below) simp
  ultimately show "\<exists>d. WaitTime (NewExponentialBackoff 1000000000 30000000000 True) 5
      new_Response src = Inr d \<and> d < 30000000000"
    by simp
qed

text \<open>
  C6, as the code has it. With jitter disabled, durations of magnitude below \<open>2 ^ 53\<close>
  nanoseconds and attempt indices \<open>0 \<le> i \<le> j\<close> at which the product
  \<open>initialDuration * 2 ^ j\<close> is not below \<open>- 2 ^ 63\<close> (and \<open>j\<close> is below 1024 when the
  initial duration is \<open>0\<close>), the wait time is \<open>min maxDuration (initialDuration * 2 ^ i)\<close>
  whatever the response. When the initial duration is not negative, the wait time does
  not decrease from \<open>i\<close> to \<open>j\<close>, and once it has reached the cap it is the cap.
\<close>

theorem exponential_no_jitter_wait:
  assumes "\<bar>init\<bar> < 2 ^ 53" "\<bar>maxd\<bar> < 2 ^ 53" "0 \<le> i" "i \<le> j"
    and "init \<noteq> 0 \<or> j < 1024" "- (2 ^ 63) \<le> init * 2 ^ nat j"
  shows "WaitTime (NewExponentialBackoff init maxd False) i resp src =
           Inr (min maxd (init * 2 ^ nat i)) \<and>
         WaitTime (NewExponentialBackoff init maxd False) j resp' src' =
           Inr (min maxd (init * 2 ^ nat j)) \<and>
         (0 \<le> init \<longrightarrow>
            min maxd (init * 2 ^ nat i) \<le> min maxd (init * 2 ^ nat j) \<and>
            (maxd \<le> init * 2 ^ nat i \<longrightarrow>
               WaitTime (NewExponentialBackoff init maxd False) j resp' src' = Inr maxd))"
proof -
  have p: "(2::int) ^ nat i \<le> 2 ^ nat j" using assms(3,4) by (intro power_increasing) auto
  have w: "WaitTime (NewExponentialBackoff init maxd False) k resp src =
      Inr (min maxd (init * 2 ^ nat k))"
    if "0 \<le> k" "init \<noteq> 0 \<or> k < 1024" "- (2 ^ 63) \<le> init * 2 ^ nat k" for k resp src
  proof (cases "init < 0")
    case True
    with assms(1,2) show ?thesis using that(1,3) by (rule exponential_no_jitter_neg)
  next
    case False
    then show ?thesis using assms(1,2) that(1,2) by (intro exponential_no_jitter) auto
  qed
  have "- (2 ^ 63) \<le> init * 2 ^ nat i"
  proof (cases "init < 0")
    case True
    then have "init * 2 ^ nat j \<le> init * 2 ^ nat i"
      using p by (intro mult_left_mono_neg) simp_all
    then show ?thesis using assms(6) by linarith
  next
    case False
    then have "0 \<le> init * 2 ^ nat i" by simp
    moreover have "(0::int) < 2 ^ 63" by simp
    ultimately show ?thesis by linarith
  qed
  then have wi: "WaitTime (NewExponentialBackoff init maxd False) i resp src =
      Inr (min maxd (init * 2 ^ nat i))"
    using assms(3,4,5) by (intro w) auto
  have wj: "WaitTime (NewExponentialBackoff init maxd False) j resp' src' =
      Inr (min maxd (init * 2 ^ nat j))"
    using assms(3,4,5,6) by (intro w) auto
  have "min maxd (init * 2 ^ nat i) \<le> min maxd (init * 2 ^ nat j) \<and>
      (maxd \<le> init * 2 ^ nat i \<longrightarrow> min maxd (init * 2 ^ nat j) = maxd)"
    if "0 \<le> init"
  proof -
    have "init * 2 ^ nat i \<le> init * 2 ^ nat j" using p that by (rule mult_left_mono)
    then show ?thesis by simp
  qed
  then show ?thesis using wi wj by simp
qed

theorem exponential_no_jitter_wait_witness:
  "WaitTime (NewExponentialBackoff 1000000000 30000000000 False) 3 new_Response 0 =
     Inr 8000000000 \<and>
   WaitTime (NewExponentialBackoff 1000000000 30000000000 False) 6 new_Response 0 =
     Inr 30000000000"
  using exponential_no_jitter_wait [where init = 1000000000 and maxd = 30000000000 and i = 3
      and j = 6 and resp = new_Response and src = 0 and resp' = new_Response and src' = 0]
  by simp

text \<open>
  Where the statement of C6 fails as the specification words it: a negative initial
  duration makes the wait times decrease (\<open>-1\<close>, then \<open>-2\<close>); an initial duration of
  \<open>2 ^ 53 + 1\<close> is rounded to \<open>2 ^ 53\<close>; and an initial duration of \<open>0\<close> at index
  1024 multiplies \<open>0\<close> by \<open>+Inf\<close>, so the wait time is whatever the implementation
  converts NaN to.
\<close>

theorem exponential_no_jitter_counterexample:
  "WaitTime (NewExponentialBackoff (- 1) 10 False) 0 new_Response 0 = Inr (- 1) \<and>
   WaitTime (NewExponentialBackoff (- 1) 10 False) 1 new_Response 0 = Inr (- 2) \<and>
   WaitTime (NewExponentialBackoff 9007199254740993 9223372036854775807 False) 0 new_Response 0 =
     Inr 9007199254740992 \<and>
   WaitTime (NewExponentialBackoff 0 10 False) 1024 new_Response 0 =
     Inl ImplementationDependent"
  by (simp add: WaitTime_eval)

text \<open>
  C7, as the code has it. With jitter enabled, durations of magnitude below \<open>2 ^ 53\<close>
  nanoseconds, an attempt index \<open>0 \<le> i\<close> and
  \<open>half = min maxDuration (initialDuration * 2 ^ i) div 2\<close> at least \<open>1\<close>, the wait time
  is \<open>half\<close> plus the generator's choice below \<open>half\<close>: it lies in \<open>[half, 2 * half)\<close>,
  and every duration of that interval is the wait time for some choice.
\<close>

theorem exponential_jitter_wait:
  assumes "\<bar>init\<bar> < 2 ^ 53" "\<bar>maxd\<bar> < 2 ^ 53" "0 \<le> i"
    and "half = min maxd (init * 2 ^ nat i) div 2" "1 \<le> half"
  shows "WaitTime (NewExponentialBackoff init maxd True) i resp src = Inr (half + src mod half) \<and>
         half \<le> half + src mod half \<and> half + src mod half < 2 * half \<and>
         (\<forall>v. half \<le> v \<and> v < 2 * half \<longrightarrow>
            (\<exists>src'. WaitTime (NewExponentialBackoff init maxd True) i resp src' = Inr v))"
proof -
  have h: "1 \<le> min maxd (init * 2 ^ nat i) div 2" using assms(4,5) by simp
  have w: "WaitTime (NewExponentialBackoff init maxd True) i resp s = Inr (half + s mod half)"
    for s
    using exponential_jitter [OF assms(1,2,3) h, of resp s] assms(4) by simp
  have m: "0 \<le> src mod half" "src mod half < half" using assms(5) by simp_all
  have "\<exists>src'. WaitTime (NewExponentialBackoff init maxd True) i resp src' = Inr v"
    if "half \<le> v" "v < 2 * half" for v
  proof -
    have "(v - half) mod half = v - half"
      by (rule mod_pos_pos_trivial) (use that in simp_all)
    then have "WaitTime (NewExponentialBackoff init maxd True) i resp (v - half) = Inr v"
      using w [of "v - half"] by simp
    then show ?thesis ..
  qed
  then show ?thesis using w [of src] m by simp
qed

theorem exponential_jitter_wait_witness:
  "WaitTime (NewExponentialBackoff 1000000000 30000000000 True) 2 new_Response 123456789 =
     Inr 2123456789"
  using exponential_jitter_wait [of 1000000000 30000000000 2 2000000000 new_Response 123456789]
  by simp

text \<open>
  Where the statement of C7 fails as the specification words it: an initial duration
  of one nanosecond clamps to \<open>1\<close> at index \<open>0\<close>, its half is \<open>0\<close>, and \<open>rand.Int63n 0\<close>
  panics, so no wait time is returned; and durations of \<open>2 ^ 55 + 3\<close> nanoseconds are
  rounded to \<open>2 ^ 55\<close>, whose half \<open>2 ^ 54\<close> is below the half \<open>2 ^ 54 + 1\<close> of the
  unrounded value.
\<close>

theorem exponential_jitter_counterexample:
  "WaitTime (NewExponentialBackoff 1 1000000000 True) 0 new_Response 0 = Inl Panic \<and>
   WaitTime (NewExponentialBackoff 36028797018963971 36028797018963971 True) 0 new_Response 0 =
     Inr 18014398509481984 \<and>
   (18014398509481984::int) < min 36028797018963971 (36028797018963971 * 2 ^ nat 0) div 2"
  by (simp add: WaitTime_eval)

text \<open>
  C10. \<open>WaitTime\<close> with jitter is not total. For an exponential backoff and an attempt
  index \<open>0 \<le> i\<close> where \<open>min maxDuration (initialDuration * 2 ^ i)\<close> is below two
  nanoseconds, in particular for an initial duration that is not positive, no wait time
  is returned; the call panics in \<open>rand.Int63n\<close> wherever the half of the clamped value
  is an int64 (durations of magnitude below \<open>2 ^ 53\<close>, a product not below \<open>- 2 ^ 64\<close>,
  and not \<open>0\<close> times \<open>+Inf\<close>), and elsewhere the bound handed to \<open>rand.Int63n\<close> is
  implementation-dependent. For a constant backoff the call panics whenever the
  initial duration is not positive.
\<close>

theorem jittered_WaitTime_is_partial:
  "(0 \<le> i \<and> min maxd (init * 2 ^ nat i) < 2 \<longrightarrow>
      (\<forall>d. WaitTime (NewExponentialBackoff init maxd True) i resp src \<noteq> Inr d)) \<and>
   (0 \<le> i \<and> init \<le> 0 \<longrightarrow>
      (\<forall>d. WaitTime (NewExponentialBackoff init maxd True) i resp src \<noteq> Inr d)) \<and>
   (0 \<le> i \<and> min maxd (init * 2 ^ nat i) < 2 \<and> \<bar>init\<bar> < 2 ^ 53 \<and> \<bar>maxd\<bar> < 2 ^ 53 \<and>
    - (2 ^ 64) \<le> init * 2 ^ nat i \<and> (init \<noteq> 0 \<or> i < 1024) \<longrightarrow>
      WaitTime (NewExponentialBackoff init maxd True) i resp src = Inl Panic) \<and>
   (init \<le> 0 \<longrightarrow> WaitTime (NewConstantBackoff init True) i resp src = Inl Panic)"
proof (intro conjI impI allI)
  fix d
  assume "0 \<le> i \<and> min maxd (init * 2 ^ nat i) < 2"
  then show "WaitTime (NewExponentialBackoff init maxd True) i resp src \<noteq> Inr d"
    by (intro exponential_jitter_no_duration) simp_all
next
  fix d
  assume a: "0 \<le> i \<and> init \<le> 0"
  then have "init * 2 ^ nat i \<le> 0" by (intro nonpos_value) simp
  then have "min maxd (init * 2 ^ nat i) < 2" by simp
  with a show "WaitTime (NewExponentialBackoff init maxd True) i resp src \<noteq> Inr d"
    by (intro exponential_jitter_no_duration) simp_all
next
  assume "0 \<le> i \<and> min maxd (init * 2 ^ nat i) < 2 \<and> \<bar>init\<bar> < 2 ^ 53 \<and> \<bar>maxd\<bar> < 2 ^ 53 \<and>
    - (2 ^ 64) \<le> init * 2 ^ nat i \<and> (init \<noteq> 0 \<or> i < 1024)"
  then show "WaitTime (NewExponentialBackoff init maxd True) i resp src = Inl Panic"
    by (intro exponential_jitter_panics) simp_all
next
  assume "init \<le> 0"
  then show "WaitTime (NewConstantBackoff init True) i resp src = Inl Panic"
    by (rule constant_jitter_panics)
qed

theorem jittered_WaitTime_is_partial_witness:
  "WaitTime (NewExponentialBackoff 1 30000000000 True) 0 new_Response 5 = Inl Panic \<and>
   WaitTime (NewExponentialBackoff 0 30000000000 True) 4 new_Response 5 = Inl Panic \<and>
   WaitTime (NewExponentialBackoff (- 1000) 30000000000 True) 2 new_Response 5 = Inl Panic \<and>
   WaitTime (NewConstantBackoff 0 True) 4 new_Response 5 = Inl Panic \<and>
   WaitTime (NewConstantBackoff (- 1000) True) 2 new_Response 5 = Inl Panic"
  using jittered_WaitTime_is_partial [of 0 30000000000 1 new_Response 5]
    jittered_WaitTime_is_partial [of 4 30000000000 0 new_Response 5]
    jittered_WaitTime_is_partial [of 2 30000000000 "- 1000" new_Response 5]
  by simp

section \<open>The execution loop\<close>

text \<open>
  C1, as the code has it. For a retry policy with \<open>maxAttempts = N\<close>, \<open>N \<ge> 1\<close>, a single
  trigger that is true on every response, a context that is never done, and a backoff
  whose \<open>WaitTime\<close> returns a duration at every index below \<open>N - 1\<close>, the loop hands the
  request to the transport exactly \<open>N\<close> times (first as it is, then regenerated) and
  returns the response and the error of the last attempt as the transport gave them.
\<close>

theorem retry_loop_always_true_trigger:
  assumes "retrier req = Some r" "1 \<le> maxAttempts r" "triggers r = [t]" "\<forall>resp. t resp"
    and "\<forall>j. Err_after (ctx req) j = None" "\<forall>j. Done_in_backoff (ctx req) j = None"
    and "\<forall>j resp. 0 \<le> j \<and> j < maxAttempts r - 1 \<longrightarrow>
           (\<exists>b d. backoff r = Some b \<and> WaitTime b j resp (rand_Int63 g j) = Inr d)"
  shows "\<exists>st. retry_loop g c 0 req \<lparr>response = resp, attempts = []\<rparr> = Returned st \<and>
           int (length (attempts st)) = maxAttempts r \<and>
           attempts st = req # replicate (nat (maxAttempts r - 1)) (regenerate req) \<and>
           Raw (response st) = fst (do g c (maxAttempts r - 1) (last (attempts st))) \<and>
           err (response st) = snd (do g c (maxAttempts r - 1) (last (attempts st)))"
proof -
  let ?n = "nat (maxAttempts r - 1)"
  let ?q = "if 0 = maxAttempts r - 1 then req else regenerate req"
  have run: "retry_loop g c 0 req \<lparr>response = resp, attempts = []\<rparr> =
      Returned \<lparr>response = attempt g c (maxAttempts r - 1) ?q
                  (response \<lparr>response = resp, attempts = []\<rparr>),
                attempts = attempts \<lparr>response = resp, attempts = []\<rparr> @
                  req # replicate ?n (regenerate req)\<rparr>"
    using assms(2) by (intro retry_loop_runs [OF assms(1,3,4,5,6,7)]) simp_all
  have l: "last (req # replicate ?n (regenerate req)) = ?q"
    using assms(2) by (cases "maxAttempts r = 1") simp_all
  have n: "int (length (req # replicate ?n (regenerate req))) = maxAttempts r"
    using assms(2) by simp
  show ?thesis
    unfolding run using l n by (simp add: attempt_def)
qed

theorem retry_loop_always_true_trigger_witness:
  "\<exists>st. retry_loop runtime0 client500 0 (SetRetry plain_request (Some constant_retrier))
           \<lparr>response = new_Response, attempts = []\<rparr> = Returned st \<and>
         length (attempts st) = 3 \<and> Raw (response st) = Some status500 \<and>
         err (response st) = None"
  using retry_loop_always_true_trigger [where req = "SetRetry plain_request (Some constant_retrier)"
      and r = constant_retrier and t = always_retry and g = runtime0 and c = client500
      and resp = new_Response]
  by (auto simp: SetRetry_def constant_retrier_def always_retry_def NewConstantBackoff_def
      do_client500)

text \<open>
  Where the statement of C1 fails as the specification words it: with \<open>maxAttempts = 2\<close>,
  a trigger that is always true, the background context and an exponential backoff of
  one nanosecond with jitter, the first backoff panics in \<open>rand.Int63n 0\<close>: one attempt
  is made, and nothing is returned.
\<close>

theorem retry_loop_panicking_backoff_counterexample:
  "retry_loop runtime0 client500 0 (SetRetry plain_request (Some tiny_jitter_retrier))
     \<lparr>response = new_Response, attempts = []\<rparr> =
   Panicked \<lparr>response = new_Response\<lparr>Raw := Some status500, err := None\<rparr>,
             attempts = [SetRetry plain_request (Some tiny_jitter_retrier)]\<rparr>"
proof -
  have w: "WaitTime (NewExponentialBackoff 1 1000000000 True) 0 resp src = Inl Panic"
    for resp src
    by (rule exponential_jitter_panics) simp_all
  have "retrier (SetRetry plain_request (Some tiny_jitter_retrier)) = Some tiny_jitter_retrier"
    by (simp add: SetRetry_def)
  from retry_loop_backoff [where g = runtime0 and c = client500 and
      st = "\<lparr>response = new_Response, attempts = []\<rparr>" and
      b = "NewExponentialBackoff 1 1000000000 True", OF this]
  show ?thesis
    by (simp add: SetRetry_def tiny_jitter_retrier_def on_always_retry attempt_client500 w)
qed

text \<open>
  C2. For a request with a body, no \<open>GetBody\<close> and a retry policy of more than one
  attempt, \<open>doWithRetry\<close> drains the body before anything is sent. If the read fails,
  it returns the read error in the response and sends nothing, and \<open>Do\<close> returns that
  response as it is. If the read succeeds, the execution continues as on the request
  whose body is a buffer of the bytes read: every request handed to the transport, the
  first included, carries a reader over those bytes as its body and a \<open>GetBody\<close> that
  returns such a reader.
\<close>

theorem doWithRetry_buffers_body:
  assumes "Body req = Some b" "GetBody req = None" "retrier req = Some r" "1 < maxAttempts r"
  shows "(\<forall>e. snd (drainBody b) = Some e \<longrightarrow>
            doWithRetry g c req resp =
              Returned \<lparr>response = resp\<lparr>err := Some e\<rparr>, attempts = []\<rparr> \<and>
            (\<forall>req0. onBeforeRequest c req0 = (req, None) \<longrightarrow>
               Do g c req0 =
                 Returned \<lparr>response = new_Response\<lparr>err := Some e\<rparr>, attempts = []\<rparr>)) \<and>
         (snd (drainBody b) = None \<longrightarrow>
            doWithRetry g c req resp =
              doWithRetry g c (SetBody req (Some (BytesBuffer (fst (drainBody b))))) resp \<and>
            (\<forall>q \<in> set (attempts (final (doWithRetry g c req resp))).
               \<exists>rd. Body q = Some rd \<and> GetBody q = Some (Some rd, None) \<and>
                    ReadFrom rd = (fst (drainBody b), None)))"
proof (intro conjI allI impI)
  fix e
  assume e: "snd (drainBody b) = Some e"
  then show d: "doWithRetry g c req resp =
      Returned \<lparr>response = resp\<lparr>err := Some e\<rparr>, attempts = []\<rparr>" for resp
    by (simp add: doWithRetry_def prepare_drains [OF assms])
  fix req0
  assume "onBeforeRequest c req0 = (req, None)"
  then show "Do g c req0 = Returned \<lparr>response = new_Response\<lparr>err := Some e\<rparr>, attempts = []\<rparr>"
    by (simp add: Do_def d onAfterResponse_def)
next
  let ?q = "SetBody req (Some (BytesBuffer (fst (drainBody b))))"
  assume n: "snd (drainBody b) = None"
  show "doWithRetry g c req resp = doWithRetry g c ?q resp"
    by (simp add: doWithRetry_def prepare_drains [OF assms] n prepare_buffered [OF assms(3)])
  have "set (attempts (final (doWithRetry g c req resp))) \<subseteq> {?q}"
    using retry_loop_attempts [OF regenerate_SetBody_buffer, of g c 0 req "fst (drainBody b)"
        "\<lparr>response = resp, attempts = []\<rparr>"]
    by (auto simp: doWithRetry_def prepare_drains [OF assms] n split: option.splits)
  then show "\<forall>q \<in> set (attempts (final (doWithRetry g c req resp))).
               \<exists>rd. Body q = Some rd \<and> GetBody q = Some (Some rd, None) \<and>
                    ReadFrom rd = (fst (drainBody b), None)"
    using SetBody_buffer [of req "fst (drainBody b)"] by blast
qed

theorem doWithRetry_buffers_body_witness:
  "doWithRetry runtime0 client500 broken_request new_Response =
     Returned \<lparr>response = new_Response\<lparr>err := Some errRead\<rparr>, attempts = []\<rparr> \<and>
   doWithRetry runtime0 client500 hello_request new_Response =
     doWithRetry runtime0 client500 (SetBody hello_request (Some (BytesBuffer ''hello world'')))
       new_Response"
  using doWithRetry_buffers_body [of broken_request "Reader ''hello'' (Some errRead)"
      constant_retrier runtime0 client500 new_Response]
    doWithRetry_buffers_body [of hello_request "Reader ''hello world'' None"
      constant_retrier runtime0 client500 new_Response]
  by (simp add: broken_request_def hello_request_def constant_retrier_def drainBody_def)

text \<open>
  C3. When the context is done during the backoff that follows attempt \<open>i\<close> (an attempt
  that is not the last, after which the context was not done, the policy asked for a
  retry and \<open>WaitTime\<close> returned), the loop returns at once: the response of attempt
  \<open>i\<close> with the context's error in its error slot, and no attempt beyond attempt \<open>i\<close>.
\<close>

theorem retry_loop_cancelled_in_backoff:
  assumes "retrier req = Some r" "i < maxAttempts r - 1" "Err_after (ctx req) i = None"
    and "on r (attempt g c i req (response st))" "backoff r = Some b"
    and "WaitTime b i (attempt g c i req (response st)) (rand_Int63 g i) = Inr d"
    and "Done_in_backoff (ctx req) i = Some e"
  shows "retry_loop g c i req st =
    Returned \<lparr>response = (attempt g c i req (response st))\<lparr>err := Some e\<rparr>,
              attempts = attempts st @ [req]\<rparr>"
  using retry_loop_backoff [where g = g and c = c and st = st, OF assms(1,2,3,4,5)] assms(6,7)
  by simp

theorem retry_loop_cancelled_in_backoff_witness:
  "retry_loop runtime0 client500 0 waiting_request \<lparr>response = new_Response, attempts = []\<rparr> =
     Returned \<lparr>response = new_Response\<lparr>Raw := Some status500, err := Some canceled\<rparr>,
               attempts = [waiting_request]\<rparr>"
  using retry_loop_cancelled_in_backoff [of waiting_request constant_retrier 0 runtime0 client500
      "\<lparr>response = new_Response, attempts = []\<rparr>" "NewConstantBackoff 100000000 False"
      100000000 canceled]
  by (simp add: waiting_request_def constant_retrier_def canceled_while_waiting_def no_error_def
      done_in_first_backoff_def on_always_retry attempt_client500 NewConstantBackoff_def)

text \<open>
  C8. \<open>Client.Put\<close> sends through the package variable \<open>GlobalClient\<close>, whatever its
  receiver: its result is that of \<open>GlobalClient.Send\<close>, so the transport, the limiter
  and the hooks are those of \<open>GlobalClient\<close>. \<open>Get\<close>, \<open>Head\<close>, \<open>Post\<close>, \<open>Patch\<close> and
  \<open>Delete\<close> send through their receiver.
\<close>

theorem Put_sends_through_GlobalClient:
  "Put g c url opts = Send g (GlobalClient g) MethodPut url opts \<and>
   Put g c url opts = Put g c' url opts \<and>
   (\<forall>req. NewRequest g MethodPut url opts = (Some req, None) \<longrightarrow>
      Put g c url opts = Do g (GlobalClient g) req) \<and>
   Get g c url opts = Send g c MethodGet url opts \<and>
   Head g c url opts = Send g c MethodHead url opts \<and>
   Post g c url opts = Send g c MethodPost url opts \<and>
   Patch g c url opts = Send g c MethodPatch url opts \<and>
   Delete g c url opts = Send g c MethodDelete url opts"
  by (simp add: Put_def Get_def Head_def Post_def Patch_def Delete_def Send_def)

theorem Put_sends_through_GlobalClient_witness:
  "Put runtime0 client500 ''http://example.com/'' [] =
     Returned \<lparr>response = new_Response\<lparr>Raw := Some status200\<rparr>,
               attempts = [plain_request\<lparr>Method := ''PUT'', retrier := Some noRetry\<rparr>]\<rparr> \<and>
   Post runtime0 client500 ''http://example.com/'' [] =
     Returned \<lparr>response = new_Response\<lparr>Raw := Some status500\<rparr>,
               attempts = [plain_request\<lparr>Method := ''POST'', retrier := Some noRetry\<rparr>]\<rparr>"
proof -
  have n: "NewRequest runtime0 m ''http://example.com/'' [] = (Some (plain_request\<lparr>Method := m\<rparr>), None)"
    if "m \<noteq> []" for m
    using that
    by (simp add: NewRequest_def Let_def runtime0_def url_accepted_def plain_request_def)
  have l: "retry_loop runtime0 c 0 (plain_request\<lparr>Method := m, retrier := Some noRetry\<rparr>)
      \<lparr>response = new_Response, attempts = []\<rparr> =
    Returned \<lparr>response = attempt runtime0 c 0
        (plain_request\<lparr>Method := m, retrier := Some noRetry\<rparr>) new_Response,
      attempts = [plain_request\<lparr>Method := m, retrier := Some noRetry\<rparr>]\<rparr>" for c m
    using retry_loop_last [where g = runtime0 and c = c and i = 0 and r = noRetry and
        req = "plain_request\<lparr>Method := m, retrier := Some noRetry\<rparr>" and
        st = "\<lparr>response = new_Response, attempts = []\<rparr>"]
    by (simp add: noRetry_def)
  have d: "Do runtime0 c (plain_request\<lparr>Method := m\<rparr>) =
    Returned \<lparr>response = onAfterResponse c (attempt runtime0 c 0
        (plain_request\<lparr>Method := m, retrier := Some noRetry\<rparr>) new_Response),
      attempts = [plain_request\<lparr>Method := m, retrier := Some noRetry\<rparr>]\<rparr>"
    if "beforeRequestHooks c = []" "admit c (plain_request\<lparr>Method := m, retrier := Some noRetry\<rparr>) = None"
    for c m
    using that by (simp add: Do_def onBeforeRequest_def doWithRetry_def prepare_def l)
  have g: "GlobalClient runtime0 = client200" by (simp add: runtime0_def)
  have "\<forall>req. NewRequest runtime0 MethodPut ''http://example.com/'' [] = (Some req, None) \<longrightarrow>
      Put runtime0 client500 ''http://example.com/'' [] = Do runtime0 (GlobalClient runtime0) req"
    using Put_sends_through_GlobalClient [where g = runtime0 and c = client500 and
        url = "''http://example.com/''" and opts = "[]"]
    by blast
  then have p: "Put runtime0 client500 ''http://example.com/'' [] =
      Do runtime0 client200 (plain_request\<lparr>Method := ''PUT''\<rparr>)"
    using n [of MethodPut] by (simp add: g MethodPut_def)
  have q: "Post runtime0 client500 ''http://example.com/'' [] =
      Do runtime0 client500 (plain_request\<lparr>Method := ''POST''\<rparr>)"
    using n [of MethodPost] by (simp add: Post_def Send_def MethodPost_def)
  have h: "beforeRequestHooks client200 = []" "beforeRequestHooks client500 = []"
    "afterResponseHooks client200 = []" "afterResponseHooks client500 = []"
    by (simp_all add: client200_def client500_def)
  show ?thesis
    unfolding p q
    by (simp add: d h onAfterResponse_def attempt_client200 attempt_client500 new_Response_def)
qed

text \<open>
  C9, as the code has it. When the pre-request hooks report no error and leave a
  request whose retry policy has \<open>maxAttempts \<le> 0\<close>, and the limiter reports no error,
  the loop makes no attempt and \<open>doWithRetry\<close> leaves the raw response and the error
  slot nil. \<open>Do\<close> then runs the post-response hooks on that empty response and returns
  what they leave: the empty response itself when no hook is registered.
\<close>

theorem Do_without_attempts:
  assumes "onBeforeRequest c req = (req', None)" "retrier req' = Some r" "maxAttempts r \<le> 0"
    and "admit c req' = None"
  shows "doWithRetry g c req' new_Response =
           Returned \<lparr>response = new_Response, attempts = []\<rparr> \<and>
         Raw new_Response = None \<and> err new_Response = None \<and>
         Do g c req =
           Returned \<lparr>response = onAfterResponse_loop (afterResponseHooks c) new_Response,
                     attempts = []\<rparr> \<and>
         (afterResponseHooks c = [] \<longrightarrow>
            Do g c req = Returned \<lparr>response = new_Response, attempts = []\<rparr>)"
proof -
  have p: "prepare req' = Inr req'" using assms(2,3) by (simp add: prepare_def)
  have l: "retry_loop g c 0 req' \<lparr>response = new_Response, attempts = []\<rparr> =
      Returned \<lparr>response = new_Response, attempts = []\<rparr>"
    using assms(2,3) by (rule retry_loop_exit)
  have d: "doWithRetry g c req' new_Response =
      Returned \<lparr>response = new_Response, attempts = []\<rparr>"
    by (simp add: doWithRetry_def p assms(4) l)
  then show ?thesis
    using assms(1) by (simp add: Do_def onAfterResponse_def new_Response_def)
qed

theorem Do_without_attempts_witness:
  "doWithRetry runtime0 client500 (SetRetry plain_request (Some zero_retrier)) new_Response =
     Returned \<lparr>response = new_Response, attempts = []\<rparr> \<and>
   Do runtime0 client500 (SetRetry plain_request (Some zero_retrier)) =
     Returned \<lparr>response = new_Response, attempts = []\<rparr>"
  using Do_without_attempts [of client500 "SetRetry plain_request (Some zero_retrier)"
      "SetRetry plain_request (Some zero_retrier)" zero_retrier runtime0]
  by (simp add: onBeforeRequest_def client500_def SetRetry_def zero_retrier_def admit_def)

text \<open>
  Where the statement of C9 fails as the specification words it: the post-response
  hooks run on the empty response, and a hook that reports an error puts it in the
  error slot of the response \<open>Do\<close> returns.
\<close>

theorem Do_rejecting_hook_counterexample:
  "Do runtime0 rejecting_client (SetRetry plain_request (Some zero_retrier)) =
     Returned \<lparr>response = new_Response\<lparr>err := Some (errorString ''rejected'')\<rparr>,
               attempts = []\<rparr>"
proof -
  have "retry_loop runtime0 rejecting_client 0 (SetRetry plain_request (Some zero_retrier))
      \<lparr>response = new_Response, attempts = []\<rparr> =
    Returned \<lparr>response = new_Response, attempts = []\<rparr>"
    by (rule retry_loop_exit [of _ zero_retrier]) (simp_all add: SetRetry_def zero_retrier_def)
  then show ?thesis
    by (simp add: Do_def onBeforeRequest_def doWithRetry_def prepare_def SetRetry_def
        zero_retrier_def onAfterResponse_def rejecting_client_def admit_def new_Response_def
        reject_def)
qed

end
